theory Spec2Isabelle
  imports Complex_Main "HOL-Library.Log_Nat"
begin

section \<open>Data model (src/types.ts)\<close>

text \<open>
  The TypeScript interfaces become records. A \<^verbatim>\<open>number\<close> is an \<^typ>\<open>int\<close>: every
  number the application stores is an integer below \<open>2^53\<close> (timestamps of
  \<^verbatim>\<open>Date.now()\<close>, results of \<^verbatim>\<open>parseInt\<close> and \<^verbatim>\<open>Math.floor\<close>), where double
  arithmetic on integers is exact. A value that is \<^verbatim>\<open>T | null\<close> is a \<^typ>\<open>'a option\<close>,
  an optional field too. The fields \<^verbatim>\<open>id\<close> and \<^verbatim>\<open>text\<close> carry the record's name
  as a suffix, since both names are taken in Isabelle.
\<close>

record Activity =
  id_activity :: string
  text_activity :: string
  createdAt :: int

record ActivityLog =
  id_log :: string
  activityId :: string
  activityText :: string
  timestamp :: int
  completed :: bool
  isSummary :: "bool option"

record AppSettings =
  minNotifications :: int
  maxNotifications :: int
  notificationsToday :: int
  lastGeneratedDate :: string

record AppState =
  activities :: "Activity list"
  logs :: "ActivityLog list"
  settings :: AppSettings
  currentRock :: "Activity option"
  lastActivityId :: "string option"
  isSummaryPending :: bool
  hasSeenOnboarding :: bool


section \<open>The calendar-day key\<close>

text \<open>
  \<^verbatim>\<open>new Date(t).toISOString().split('T')[0]\<close>: the UTC calendar date of the time
  value \<open>t\<close> (milliseconds since the epoch), printed as \<^verbatim>\<open>YYYY-MM-DD\<close>, with a sign and a
  six-digit year outside the years 0 to 9999. The day number is turned into a civil
  date in the proleptic Gregorian calendar by counting in 400-year eras that start on
  1 March. Time values beyond 8.64e15 in magnitude, on which \<^verbatim>\<open>toISOString\<close> raises
  a RangeError, are not time values of this model: every timestamp of the application
  is a \<^verbatim>\<open>Date.now()\<close>.
\<close>

definition msPerDay :: int where
  "msPerDay = 86400000"

definition digit :: "int \<Rightarrow> char" where
  "digit n = ''0123456789'' ! nat (n mod 10)"

definition pad2 :: "int \<Rightarrow> string" where
  "pad2 n = [digit (n div 10), digit n]"

definition pad4 :: "int \<Rightarrow> string" where
  "pad4 n = pad2 (n div 100) @ pad2 n"

definition pad6 :: "int \<Rightarrow> string" where
  "pad6 n = pad2 (n div 10000) @ pad4 n"

definition civilFromDays :: "int \<Rightarrow> int \<times> int \<times> int" where
  "civilFromDays days =
     (let z = days + 719468;
          era = z div 146097;
          doe = z mod 146097;
          yoe = (doe - doe div 1460 + doe div 36524 - doe div 146096) div 365;
          doy = doe - (365 * yoe + yoe div 4 - yoe div 100);
          mp = (5 * doy + 2) div 153;
          d = doy - (153 * mp + 2) div 5 + 1;
          m = (if mp < 10 then mp + 3 else mp - 9);
          y = yoe + era * 400 + (if m \<le> 2 then 1 else 0)
      in (y, m, d))"

definition isoYear :: "int \<Rightarrow> string" where
  "isoYear y =
     (if 0 \<le> y \<and> y \<le> 9999 then pad4 y
      else if y < 0 then CHR ''-'' # pad6 (- y)
      else CHR ''+'' # pad6 y)"

definition toISODate :: "int \<Rightarrow> string" where
  "toISODate t =
     (case civilFromDays (t div msPerDay) of
        (y, m, d) \<Rightarrow> isoYear y @ ''-'' @ pad2 m @ ''-'' @ pad2 d)"


section \<open>The prompt state machine (src/App.tsx)\<close>

text \<open>
  The three sub-states are read off two fields. An object is always truthy, so
  \<^verbatim>\<open>currentRock\<close> is truthy exactly when it is not \<^verbatim>\<open>null\<close>; a string is truthy
  exactly when it is not empty.
\<close>

definition Idle :: "AppState \<Rightarrow> bool" where
  "Idle s = (currentRock s = None \<and> \<not> isSummaryPending s)"

definition Prompting :: "Activity \<Rightarrow> AppState \<Rightarrow> bool" where
  "Prompting a s = (currentRock s = Some a \<and> \<not> isSummaryPending s)"

definition SummaryPending :: "AppState \<Rightarrow> bool" where
  "SummaryPending s = (currentRock s = None \<and> isSummaryPending s)"

definition truthyString :: "string option \<Rightarrow> bool" where
  "truthyString v = (case v of None \<Rightarrow> False | Some str \<Rightarrow> str \<noteq> [])"

text \<open>
  \<^verbatim>\<open>pool[randomIndex]\<close>: reading an array outside its bounds gives \<^verbatim>\<open>undefined\<close>,
  which is falsy like \<^verbatim>\<open>null\<close> and is \<open>None\<close> here. The selection below reads outside
  the bounds only when the filtered pool is empty, that is when every activity has
  the id \<^verbatim>\<open>lastActivityId\<close>.
\<close>

definition at_index :: "'a list \<Rightarrow> int \<Rightarrow> 'a option" where
  "at_index xs i = (if 0 \<le> i \<and> i < int (length xs) then Some (xs ! nat i) else None)"

text \<open>
  The logs counted against today's quota (lines 135 to 139): those whose day key is
  today's and that are not summary entries. \<open>now\<close> is the clock's time value.
\<close>

definition todaysLogs :: "int \<Rightarrow> ActivityLog list \<Rightarrow> ActivityLog list" where
  "todaysLogs now ls =
     filter (\<lambda>l. toISODate (timestamp l) = toISODate now \<and> activityId l \<noteq> ''SUMMARY'') ls"

text \<open>
  The selection of lines 149 to 158. \<open>rnd\<close> is the value of \<^verbatim>\<open>Math.random()\<close>, a
  number with \<open>0 \<le> rnd < 1\<close>. For a pool of \<open>n\<close> entries the double product
  \<^verbatim>\<open>Math.random() * n\<close> stays below \<open>n\<close>, and its floor takes each of \<open>0, \<dots>, n - 1\<close>, as
  the floor of the real product does.
\<close>

definition pickRock :: "real \<Rightarrow> Activity list \<Rightarrow> string option \<Rightarrow> Activity option" where
  "pickRock rnd acts lastId =
     (let pool = (if length acts > 1 \<and> truthyString lastId
                  then filter (\<lambda>a. Some (id_activity a) \<noteq> lastId) acts
                  else acts);
          randomIndex = \<lfloor>rnd * real (length pool)\<rfloor>
      in at_index pool randomIndex)"

definition triggerNotification :: "real \<Rightarrow> int \<Rightarrow> AppState \<Rightarrow> AppState" where
  "triggerNotification rnd now s =
     (if currentRock s \<noteq> None \<or> isSummaryPending s then s
      else if int (length (todaysLogs now (logs s))) \<ge> notificationsToday (settings s)
        then s\<lparr>isSummaryPending := True\<rparr>
      else if length (activities s) = 0 then s
      else s\<lparr>currentRock := pickRock rnd (activities s) (lastActivityId s)\<rparr>)"

text \<open>
  \<^verbatim>\<open>handleRockResponse\<close>: \<open>newId\<close> is the value of \<^verbatim>\<open>crypto.randomUUID()\<close> and \<open>now\<close>
  that of \<^verbatim>\<open>Date.now()\<close>. The new entry has no \<^verbatim>\<open>isSummary\<close> field.
\<close>

definition handleRockResponse :: "string \<Rightarrow> int \<Rightarrow> bool \<Rightarrow> AppState \<Rightarrow> AppState" where
  "handleRockResponse newId now answer s =
     (case currentRock s of
        None \<Rightarrow> s
      | Some rock \<Rightarrow>
          (let newLog = \<lparr>id_log = newId, activityId = id_activity rock,
                         activityText = text_activity rock, timestamp = now,
                         completed = answer, isSummary = None\<rparr>
           in s\<lparr>logs := logs s @ [newLog],
                lastActivityId := Some (id_activity rock),
                currentRock := None\<rparr>))"

definition handleSummaryDismiss :: "AppState \<Rightarrow> AppState" where
  "handleSummaryDismiss s = s\<lparr>isSummaryPending := False\<rparr>"

definition dismissOnboarding :: "AppState \<Rightarrow> AppState" where
  "dismissOnboarding s = s\<lparr>hasSeenOnboarding := True\<rparr>"

definition removeActivity :: "string \<Rightarrow> AppState \<Rightarrow> AppState" where
  "removeActivity i s = s\<lparr>activities := filter (\<lambda>a. id_activity a \<noteq> i) (activities s)\<rparr>"


text \<open>
  \<^verbatim>\<open>String.prototype.trim\<close> removes white space and line terminators at both ends. A
  \<^typ>\<open>string\<close> is a list of 8-bit characters, read as code units below 256; of the
  characters \<^verbatim>\<open>trim\<close> removes, these are tab, line feed, vertical tab, form feed,
  carriage return, space and the no-break space.
\<close>

definition isWhiteSpace :: "char \<Rightarrow> bool" where
  "isWhiteSpace c =
     (c \<in> set [CHR 0x09, CHR 0x0A, CHR 0x0B, CHR 0x0C, CHR 0x0D, CHR 0x20, CHR 0xA0])"

definition trimStart :: "string \<Rightarrow> string" where
  "trimStart str = dropWhile isWhiteSpace str"

definition trim :: "string \<Rightarrow> string" where
  "trim str = rev (trimStart (rev (trimStart str)))"

text \<open>
  \<^verbatim>\<open>addActivity\<close> reads the form field \<^verbatim>\<open>newActivityText\<close> and, when it adds an
  activity, empties it: the function returns the state and the field.
\<close>

definition addActivity :: "string \<Rightarrow> int \<Rightarrow> string \<Rightarrow> AppState \<Rightarrow> AppState \<times> string" where
  "addActivity newId now newActivityText s =
     (if trim newActivityText = [] then (s, newActivityText)
      else
        (let newActivity = \<lparr>id_activity = newId, text_activity = trim newActivityText,
                              createdAt = now\<rparr>
         in (s\<lparr>activities := activities s @ [newActivity]\<rparr>, [])))"

subsection \<open>Settings inputs\<close>

text \<open>
  \<^verbatim>\<open>parseInt(str)\<close> without a radix: leading white space is skipped, then a sign, then
  the prefix \<^verbatim>\<open>0x\<close> or \<^verbatim>\<open>0X\<close> selects radix 16, and the longest run of digits of the
  radix is read. No digit gives \<^verbatim>\<open>NaN\<close>, which is \<open>None\<close>.
\<close>

definition digitValue :: "char \<Rightarrow> nat option" where
  "digitValue c =
     (let n = (of_char c :: nat)
      in if 48 \<le> n \<and> n \<le> 57 then Some (n - 48)
         else if 97 \<le> n \<and> n \<le> 122 then Some (n - 87)
         else if 65 \<le> n \<and> n \<le> 90 then Some (n - 55)
         else None)"

definition isRadixDigit :: "nat \<Rightarrow> char \<Rightarrow> bool" where
  "isRadixDigit R c = (case digitValue c of None \<Rightarrow> False | Some v \<Rightarrow> v < R)"

definition radixValue :: "nat \<Rightarrow> string \<Rightarrow> int" where
  "radixValue R Z = foldl (\<lambda>acc c. acc * int R + int (the (digitValue c))) 0 Z"

definition parseDigits :: "nat \<Rightarrow> string \<Rightarrow> int option" where
  "parseDigits R str =
     (let Z = takeWhile (isRadixDigit R) str
      in if Z = [] then None else Some (radixValue R Z))"

definition parseUnsigned :: "string \<Rightarrow> int option" where
  "parseUnsigned str =
     (if take 2 str = ''0x'' \<or> take 2 str = ''0X'' then parseDigits 16 (drop 2 str)
      else parseDigits 10 str)"

definition parseInt :: "string \<Rightarrow> int option" where
  "parseInt inputString =
     (case trimStart inputString of
        [] \<Rightarrow> None
      | c # rest \<Rightarrow>
          if c = CHR ''-'' then map_option uminus (parseUnsigned rest)
          else if c = CHR ''+'' then parseUnsigned rest
          else parseUnsigned (c # rest))"

text \<open>\<^verbatim>\<open>x || d\<close> on a number: \<^verbatim>\<open>NaN\<close> and zero are falsy.\<close>

definition numberOr :: "int option \<Rightarrow> int \<Rightarrow> int" where
  "numberOr x d = (case x of None \<Rightarrow> d | Some n \<Rightarrow> if n = 0 then d else n)"

text \<open>
  The \<^verbatim>\<open>onChange\<close> handlers of the two number fields of \<^verbatim>\<open>renderSettings\<close> (lines 371
  to 374 and 386 to 389); \<open>v\<close> is \<^verbatim>\<open>e.target.value\<close>.
\<close>

definition onChangeMinimum :: "string \<Rightarrow> AppState \<Rightarrow> AppState" where
  "onChangeMinimum v s =
     (let val = numberOr (parseInt v) 1
      in s\<lparr>settings := (settings s)\<lparr>minNotifications :=
             min val (maxNotifications (settings s))\<rparr>\<rparr>)"

definition onChangeMaximum :: "string \<Rightarrow> AppState \<Rightarrow> AppState" where
  "onChangeMaximum v s =
     (let val = numberOr (parseInt v) 2
      in s\<lparr>settings := (settings s)\<lparr>maxNotifications :=
             max val (minNotifications (settings s))\<rparr>\<rparr>)"


section \<open>Persistence (src/utils/storage.ts)\<close>

text \<open>
  \<^verbatim>\<open>localStorage\<close> maps keys to strings. \<^verbatim>\<open>JSON.stringify\<close> and \<^verbatim>\<open>JSON.parse\<close> are
  modelled on the text: \<open>stringify\<close> writes a value as the text ECMAScript gives it
  (no white space, the escapes of \<^verbatim>\<open>QuoteJSONString\<close>), and \<open>jsonParse\<close> reads the JSON
  grammar, white space included. The values are trees whose numbers are integers and
  whose strings are 8-bit code units, like the rest of the model: on a number with a
  fraction or an exponent, and on a \<^verbatim>\<open>\u\<close> escape above \<open>00ff\<close>, the parser stops and
  answers \<open>IllTyped\<close>, which stands for a value outside the model, as it does for a
  document that has not the shape of the TypeScript type \<^verbatim>\<open>JSON.parse\<close>'s result is cast
  to. \<^verbatim>\<open>lastActivityId\<close> is stored as it is, not as JSON.
\<close>

datatype json =
    JNull
  | JBool bool
  | JNum int
  | JStr string
  | JArr "json list"
  | JObj "(string \<times> json) list"

type_synonym storage = "string \<rightharpoonup> string"

datatype error = SyntaxError | IllTyped

definition ACTIVITIES :: string where "ACTIVITIES = ''bigrocks_activities''"
definition LOGS :: string where "LOGS = ''bigrocks_logs''"
definition SETTINGS :: string where "SETTINGS = ''bigrocks_settings''"
definition STATE_CURRENT :: string where "STATE_CURRENT = ''bigrocks_current_rock''"
definition STATE_LAST_ID :: string where "STATE_LAST_ID = ''bigrocks_last_id''"
definition STATE_SUMMARY :: string where "STATE_SUMMARY = ''bigrocks_summary_pending''"
definition HAS_SEEN_ONBOARDING :: string where
  "HAS_SEEN_ONBOARDING = ''bigrocks_has_seen_onboarding''"

subsection \<open>\<^verbatim>\<open>JSON.stringify\<close>\<close>

text \<open>
  The double quote is \<open>CHR 0x22\<close> and the backslash \<open>CHR 0x5C\<close>. A control character
  without a short escape is written as \<^verbatim>\<open>\u00\<close> and two lower-case hexadecimal digits.
  An integer is written in decimal, as ECMAScript writes one below \<open>10^21\<close>; the members
  of an object are written in the order of its properties; a property that is
  \<^verbatim>\<open>undefined\<close> is left out (\<open>logToJson\<close> below).
\<close>

definition hexDigit :: "nat \<Rightarrow> char" where
  "hexDigit d = ''0123456789abcdef'' ! d"

definition escapeChar :: "char \<Rightarrow> string" where
  "escapeChar c =
     (if c = CHR 0x22 then [CHR 0x5C, CHR 0x22]
      else if c = CHR 0x5C then [CHR 0x5C, CHR 0x5C]
      else if c = CHR 0x08 then [CHR 0x5C, CHR ''b'']
      else if c = CHR 0x0C then [CHR 0x5C, CHR ''f'']
      else if c = CHR 0x0A then [CHR 0x5C, CHR ''n'']
      else if c = CHR 0x0D then [CHR 0x5C, CHR ''r'']
      else if c = CHR 0x09 then [CHR 0x5C, CHR ''t'']
      else if (of_char c :: nat) < 32
        then [CHR 0x5C, CHR ''u'', CHR ''0'', CHR ''0'',
              hexDigit (of_char c div 16), hexDigit (of_char c mod 16)]
      else [c])"

definition quote :: "string \<Rightarrow> string" where
  "quote str = CHR 0x22 # concat (map escapeChar str) @ [CHR 0x22]"

fun showNat :: "nat \<Rightarrow> string" where
  "showNat n = (if n < 10 then [hexDigit n] else showNat (n div 10) @ [hexDigit (n mod 10)])"

declare showNat.simps [simp del]

definition showInt :: "int \<Rightarrow> string" where
  "showInt i = (if i < 0 then CHR ''-'' # showNat (nat (- i)) else showNat (nat i))"

fun stringify :: "json \<Rightarrow> string"
  and elements :: "json list \<Rightarrow> string"
  and members :: "(string \<times> json) list \<Rightarrow> string" where
  "stringify JNull = ''null''"
| "stringify (JBool b) = (if b then ''true'' else ''false'')"
| "stringify (JNum i) = showInt i"
| "stringify (JStr str) = quote str"
| "stringify (JArr xs) = ''['' @ elements xs @ '']''"
| "stringify (JObj fs) = ''{'' @ members fs @ ''}''"
| "elements [] = []"
| "elements [x] = stringify x"
| "elements (x # y # ys) = stringify x @ '','' @ elements (y # ys)"
| "members [] = []"
| "members [(k, v)] = quote k @ '':'' @ stringify v"
| "members ((k, v) # m # ms) = quote k @ '':'' @ stringify v @ '','' @ members (m # ms)"

subsection \<open>\<^verbatim>\<open>JSON.parse\<close>\<close>

text \<open>
  A recursive-descent parser of the JSON grammar. \<open>parseChars\<close> reads a string after
  its opening quote; \<open>parseNumber\<close> reads an integer, refusing a leading zero;
  \<open>parseValue\<close>, \<open>parseElements\<close> and \<open>parseMembers\<close> read a value, the elements of an
  array after the bracket and the members of an object after the brace. Their first
  argument bounds the nesting and the number of elements still to read; \<open>jsonParse\<close>
  starts them with more than the length of the text. An exception \<^verbatim>\<open>JSON.parse\<close>
  raises is \<open>Inl SyntaxError\<close>.
\<close>

definition isWs :: "char \<Rightarrow> bool" where
  "isWs c = (c = CHR 0x20 \<or> c = CHR 0x09 \<or> c = CHR 0x0A \<or> c = CHR 0x0D)"

definition skipWs :: "string \<Rightarrow> string" where
  "skipWs str = dropWhile isWs str"

definition unescape :: "char \<Rightarrow> char option" where
  "unescape e =
     (if e = CHR 0x22 then Some (CHR 0x22)
      else if e = CHR 0x5C then Some (CHR 0x5C)
      else if e = CHR ''/'' then Some (CHR ''/'')
      else if e = CHR ''b'' then Some (CHR 0x08)
      else if e = CHR ''f'' then Some (CHR 0x0C)
      else if e = CHR ''n'' then Some (CHR 0x0A)
      else if e = CHR ''r'' then Some (CHR 0x0D)
      else if e = CHR ''t'' then Some (CHR 0x09)
      else None)"

definition hex4 :: "char \<Rightarrow> char \<Rightarrow> char \<Rightarrow> char \<Rightarrow> nat option" where
  "hex4 a b c d =
     (if isRadixDigit 16 a \<and> isRadixDigit 16 b \<and> isRadixDigit 16 c \<and> isRadixDigit 16 d
      then Some (nat (radixValue 16 [a, b, c, d])) else None)"

definition consChar :: "char \<Rightarrow> error + string \<times> string \<Rightarrow> error + string \<times> string" where
  "consChar c r = (case r of Inl e \<Rightarrow> Inl e | Inr (str, rest) \<Rightarrow> Inr (c # str, rest))"

fun parseChars :: "string \<Rightarrow> error + string \<times> string" where
  "parseChars [] = Inl SyntaxError"
| "parseChars (c # cs) =
     (if c = CHR 0x22 then Inr ([], cs)
      else if c = CHR 0x5C then
        (case cs of
           [] \<Rightarrow> Inl SyntaxError
         | e # rest \<Rightarrow>
             if e = CHR ''u'' then
               (case rest of
                  h1 # h2 # h3 # h4 # rest' \<Rightarrow>
                    (case hex4 h1 h2 h3 h4 of
                       None \<Rightarrow> Inl SyntaxError
                     | Some n \<Rightarrow>
                         if n < 256 then consChar (char_of n) (parseChars rest')
                         else Inl IllTyped)
                | _ \<Rightarrow> Inl SyntaxError)
             else
               (case unescape e of
                  None \<Rightarrow> Inl SyntaxError
                | Some ch \<Rightarrow> consChar ch (parseChars rest)))
      else if (of_char c :: nat) < 32 then Inl SyntaxError
      else consChar c (parseChars cs))"

definition parseNumber :: "string \<Rightarrow> error + int \<times> string" where
  "parseNumber str =
     (let negative = (take 1 str = ''-'');
          unsigned = (if negative then drop 1 str else str);
          ds = takeWhile (isRadixDigit 10) unsigned;
          rest = dropWhile (isRadixDigit 10) unsigned
      in if ds = [] then Inl SyntaxError
         else if 1 < length ds \<and> hd ds = CHR ''0'' then Inl SyntaxError
         else if take 1 rest = ''.'' \<or> take 1 rest = ''e'' \<or> take 1 rest = ''E''
           then Inl IllTyped
         else Inr (if negative then - radixValue 10 ds else radixValue 10 ds, rest))"

definition literal :: "string \<Rightarrow> json \<Rightarrow> string \<Rightarrow> error + json \<times> string" where
  "literal word v str =
     (if take (length word) str = word then Inr (v, drop (length word) str)
      else Inl SyntaxError)"

fun parseValue :: "nat \<Rightarrow> string \<Rightarrow> error + json \<times> string"
  and parseElements :: "nat \<Rightarrow> string \<Rightarrow> error + json list \<times> string"
  and parseMembers :: "nat \<Rightarrow> string \<Rightarrow> error + (string \<times> json) list \<times> string" where
  "parseValue 0 str = Inl SyntaxError"
| "parseValue (Suc n) str =
     (case str of
        [] \<Rightarrow> Inl SyntaxError
      | c # cs \<Rightarrow>
          if c = CHR ''n'' then literal ''null'' JNull str
          else if c = CHR ''t'' then literal ''true'' (JBool True) str
          else if c = CHR ''f'' then literal ''false'' (JBool False) str
          else if c = CHR 0x22 then
            (case parseChars cs of
               Inl e \<Rightarrow> Inl e
             | Inr (s, rest) \<Rightarrow> Inr (JStr s, rest))
          else if c = CHR ''['' then
            (if take 1 (skipWs cs) = '']'' then Inr (JArr [], drop 1 (skipWs cs))
             else (case parseElements n (skipWs cs) of
                     Inl e \<Rightarrow> Inl e
                   | Inr (xs, rest) \<Rightarrow> Inr (JArr xs, rest)))
          else if c = CHR ''{'' then
            (if take 1 (skipWs cs) = ''}'' then Inr (JObj [], drop 1 (skipWs cs))
             else (case parseMembers n (skipWs cs) of
                     Inl e \<Rightarrow> Inl e
                   | Inr (fs, rest) \<Rightarrow> Inr (JObj fs, rest)))
          else (case parseNumber str of
                  Inl e \<Rightarrow> Inl e
                | Inr (i, rest) \<Rightarrow> Inr (JNum i, rest)))"
| "parseElements 0 str = Inl SyntaxError"
| "parseElements (Suc n) str =
     (case parseValue n str of
        Inl e \<Rightarrow> Inl e
      | Inr (x, rest) \<Rightarrow>
          if take 1 (skipWs rest) = '','' then
            (case parseElements n (skipWs (drop 1 (skipWs rest))) of
               Inl e \<Rightarrow> Inl e
             | Inr (xs, rest') \<Rightarrow> Inr (x # xs, rest'))
          else if take 1 (skipWs rest) = '']'' then Inr ([x], drop 1 (skipWs rest))
          else Inl SyntaxError)"
| "parseMembers 0 str = Inl SyntaxError"
| "parseMembers (Suc n) str =
     (if take 1 str \<noteq> [CHR 0x22] then Inl SyntaxError
      else
        (case parseChars (drop 1 str) of
           Inl e \<Rightarrow> Inl e
         | Inr (k, rest) \<Rightarrow>
             if take 1 (skipWs rest) \<noteq> '':'' then Inl SyntaxError
             else
               (case parseValue n (skipWs (drop 1 (skipWs rest))) of
                  Inl e \<Rightarrow> Inl e
                | Inr (v, rest1) \<Rightarrow>
                    if take 1 (skipWs rest1) = '','' then
                      (case parseMembers n (skipWs (drop 1 (skipWs rest1))) of
                         Inl e \<Rightarrow> Inl e
                       | Inr (fs, rest2) \<Rightarrow> Inr ((k, v) # fs, rest2))
                    else if take 1 (skipWs rest1) = ''}'' then
                      Inr ([(k, v)], drop 1 (skipWs rest1))
                    else Inl SyntaxError)))"

definition jsonParse :: "string \<Rightarrow> error + json" where
  "jsonParse text =
     (case parseValue (Suc (length text)) (skipWs text) of
        Inl e \<Rightarrow> Inl e
      | Inr (v, rest) \<Rightarrow> if skipWs rest = [] then Inr v else Inl SyntaxError)"

text \<open>The rest a value of \<open>stringify\<close> is followed by: nothing, a comma or a closing.\<close>

definition okRest :: "string \<Rightarrow> bool" where
  "okRest rest =
     (rest = [] \<or> hd rest = CHR '','' \<or> hd rest = CHR '']'' \<or> hd rest = CHR ''}'')"

definition startChar :: "char \<Rightarrow> bool" where
  "startChar c = (\<not> isWs c \<and> c \<noteq> CHR '']'' \<and> c \<noteq> CHR ''}'')"

text \<open>
  A property of a parsed object is the last member of that name in the text.
\<close>

definition member :: "(string \<times> json) list \<Rightarrow> string \<Rightarrow> json option" where
  "member fs k = map_of (rev fs) k"

subsection \<open>The values the application writes\<close>

definition activityToJson :: "Activity \<Rightarrow> json" where
  "activityToJson a =
     JObj [(''id'', JStr (id_activity a)), (''text'', JStr (text_activity a)),
           (''createdAt'', JNum (createdAt a))]"

text \<open>A field that is \<^verbatim>\<open>undefined\<close> is left out of the document.\<close>

definition logToJson :: "ActivityLog \<Rightarrow> json" where
  "logToJson l =
     JObj ([(''id'', JStr (id_log l)), (''activityId'', JStr (activityId l)),
            (''activityText'', JStr (activityText l)), (''timestamp'', JNum (timestamp l)),
            (''completed'', JBool (completed l))]
           @ (case isSummary l of None \<Rightarrow> [] | Some b \<Rightarrow> [(''isSummary'', JBool b)]))"

definition settingsToJson :: "AppSettings \<Rightarrow> json" where
  "settingsToJson st =
     JObj [(''minNotifications'', JNum (minNotifications st)),
           (''maxNotifications'', JNum (maxNotifications st)),
           (''notificationsToday'', JNum (notificationsToday st)),
           (''lastGeneratedDate'', JStr (lastGeneratedDate st))]"

definition rockToJson :: "Activity option \<Rightarrow> json" where
  "rockToJson r = (case r of None \<Rightarrow> JNull | Some a \<Rightarrow> activityToJson a)"

subsection \<open>The typed values a parsed document is cast to\<close>

fun activityOfJson :: "json \<Rightarrow> Activity option" where
  "activityOfJson (JObj fs) =
     (case (member fs ''id'', member fs ''text'', member fs ''createdAt'') of
        (Some (JStr i), Some (JStr t), Some (JNum c)) \<Rightarrow>
          Some \<lparr>id_activity = i, text_activity = t, createdAt = c\<rparr>
      | _ \<Rightarrow> None)"
| "activityOfJson _ = None"

fun optBoolOfJson :: "json option \<Rightarrow> bool option option" where
  "optBoolOfJson None = Some None"
| "optBoolOfJson (Some (JBool b)) = Some (Some b)"
| "optBoolOfJson _ = None"

fun logOfJson :: "json \<Rightarrow> ActivityLog option" where
  "logOfJson (JObj fs) =
     (case (member fs ''id'', member fs ''activityId'', member fs ''activityText'',
            member fs ''timestamp'', member fs ''completed'',
            optBoolOfJson (member fs ''isSummary'')) of
        (Some (JStr i), Some (JStr a), Some (JStr t), Some (JNum ts), Some (JBool c), Some sm) \<Rightarrow>
          Some \<lparr>id_log = i, activityId = a, activityText = t, timestamp = ts,
                completed = c, isSummary = sm\<rparr>
      | _ \<Rightarrow> None)"
| "logOfJson _ = None"

fun settingsOfJson :: "json \<Rightarrow> AppSettings option" where
  "settingsOfJson (JObj fs) =
     (case (member fs ''minNotifications'', member fs ''maxNotifications'',
            member fs ''notificationsToday'', member fs ''lastGeneratedDate'') of
        (Some (JNum mn), Some (JNum mx), Some (JNum nt), Some (JStr d)) \<Rightarrow>
          Some \<lparr>minNotifications = mn, maxNotifications = mx, notificationsToday = nt,
                lastGeneratedDate = d\<rparr>
      | _ \<Rightarrow> None)"
| "settingsOfJson _ = None"

fun listOfJson :: "(json \<Rightarrow> 'a option) \<Rightarrow> json \<Rightarrow> 'a list option" where
  "listOfJson f (JArr js) = those (map f js)"
| "listOfJson f _ = None"

fun rockOfJson :: "json \<Rightarrow> Activity option option" where
  "rockOfJson JNull = Some None"
| "rockOfJson j = map_option Some (activityOfJson j)"

fun boolOfJson :: "json \<Rightarrow> bool option" where
  "boolOfJson (JBool b) = Some b"
| "boolOfJson _ = None"

subsection \<open>Reading and writing the store\<close>

text \<open>\<^verbatim>\<open>JSON.parse(localStorage.getItem(key) || dflt)\<close>: the empty text is falsy.\<close>

definition parseOr :: "string option \<Rightarrow> string \<Rightarrow> error + json" where
  "parseOr item dflt =
     (case item of
        None \<Rightarrow> jsonParse dflt
      | Some str \<Rightarrow> if str = [] then jsonParse dflt else jsonParse str)"

definition castTo :: "(json \<Rightarrow> 'a option) \<Rightarrow> error + json \<Rightarrow> error + 'a" where
  "castTo f r =
     (case r of
        Inl e \<Rightarrow> Inl e
      | Inr j \<Rightarrow> (case f j of None \<Rightarrow> Inl IllTyped | Some v \<Rightarrow> Inr v))"

definition andThen :: "error + 'a \<Rightarrow> ('a \<Rightarrow> error + 'b) \<Rightarrow> error + 'b" where
  "andThen r f = (case r of Inl e \<Rightarrow> Inl e | Inr v \<Rightarrow> f v)"

text \<open>\<open>now\<close> is the time value of the \<^verbatim>\<open>new Date()\<close> of the default settings.\<close>

definition defaultSettings :: "int \<Rightarrow> AppSettings" where
  "defaultSettings now =
     \<lparr>minNotifications = 3, maxNotifications = 8, notificationsToday = 5,
      lastGeneratedDate = toISODate now\<rparr>"

definition loadInitialData :: "int \<Rightarrow> storage \<Rightarrow> error + AppState" where
  "loadInitialData now store =
     andThen (castTo (listOfJson activityOfJson) (parseOr (store ACTIVITIES) ''[]'')) (\<lambda>acts.
     andThen (castTo (listOfJson logOfJson) (parseOr (store LOGS) ''[]'')) (\<lambda>lgs.
     andThen (castTo settingsOfJson
                (parseOr (store SETTINGS)
                   (stringify (settingsToJson (defaultSettings now))))) (\<lambda>st.
     andThen (castTo rockOfJson (parseOr (store STATE_CURRENT) ''null'')) (\<lambda>rock.
     andThen (castTo boolOfJson (parseOr (store STATE_SUMMARY) ''false'')) (\<lambda>pending.
     andThen (castTo boolOfJson (parseOr (store HAS_SEEN_ONBOARDING) ''false'')) (\<lambda>seen.
       Inr \<lparr>activities = acts, logs = lgs, settings = st, currentRock = rock,
            lastActivityId = store STATE_LAST_ID, isSummaryPending = pending,
            hasSeenOnboarding = seen\<rparr>))))))"

definition saveData ::
  "Activity list \<Rightarrow> ActivityLog list \<Rightarrow> AppSettings \<Rightarrow> Activity option \<Rightarrow> string option \<Rightarrow>
   bool \<Rightarrow> bool \<Rightarrow> storage \<Rightarrow> storage" where
  "saveData acts lgs st rock lastId pending seen store =
     (let s1 = store(ACTIVITIES \<mapsto> stringify (JArr (map activityToJson acts)));
          s2 = s1(LOGS \<mapsto> stringify (JArr (map logToJson lgs)));
          s3 = s2(SETTINGS \<mapsto> stringify (settingsToJson st));
          s4 = s3(STATE_CURRENT \<mapsto> stringify (rockToJson rock));
          s5 = (if truthyString lastId then s4(STATE_LAST_ID \<mapsto> the lastId)
                else s4(STATE_LAST_ID := None));
          s6 = s5(STATE_SUMMARY \<mapsto> stringify (JBool pending))
      in s6(HAS_SEEN_ONBOARDING \<mapsto> stringify (JBool seen)))"

text \<open>The persistence effect (lines 109 to 111) writes the whole state.\<close>

definition persist :: "AppState \<Rightarrow> storage \<Rightarrow> storage" where
  "persist s store =
     saveData (activities s) (logs s) (settings s) (currentRock s) (lastActivityId s)
       (isSummaryPending s) (hasSeenOnboarding s) store"


section \<open>Day rollover (src/App.tsx, lines 43 to 106)\<close>

text \<open>
  Both call sites compute the new quota with the same three lines: \<open>rnd\<close> is the value
  of \<^verbatim>\<open>Math.random()\<close>, and \<open>today\<close> the day key of the clock.
\<close>

definition newCount :: "real \<Rightarrow> AppSettings \<Rightarrow> int" where
  "newCount rnd st =
     (let range = maxNotifications st - minNotifications st;
          randomAdd = \<lfloor>rnd * real_of_int (range + 1)\<rfloor>
      in minNotifications st + randomAdd)"

definition newSettings :: "real \<Rightarrow> string \<Rightarrow> AppSettings \<Rightarrow> AppSettings" where
  "newSettings rnd today st =
     st\<lparr>notificationsToday := newCount rnd st, lastGeneratedDate := today\<rparr>"

text \<open>
  The initialization effect: the state after it is the loaded data, with the settings
  regenerated and the daily state reset when the stored day key is not today's. The
  effect and \<^verbatim>\<open>loadInitialData\<close> read the clock one after the other; \<open>now\<close> is the time
  value of both.
\<close>

definition initialize :: "real \<Rightarrow> int \<Rightarrow> storage \<Rightarrow> error + AppState" where
  "initialize rnd now store =
     andThen (loadInitialData now store) (\<lambda>data.
       let today = toISODate now
       in if lastGeneratedDate (settings data) \<noteq> today
          then Inr (data\<lparr>settings := newSettings rnd today (settings data),
                         isSummaryPending := False, currentRock := None\<rparr>)
          else Inr data)"

text \<open>
  The visibility listener reads the saved settings, not the state. Everything thrown
  inside its \<^verbatim>\<open>try\<close> block is caught and leaves the state as it is: a text that does
  not parse, and the field access on a stored \<^verbatim>\<open>null\<close>.
\<close>

datatype visibilityState = visible | hidden

definition handleVisibilityChange ::
  "visibilityState \<Rightarrow> real \<Rightarrow> int \<Rightarrow> storage \<Rightarrow> AppState \<Rightarrow> error + AppState" where
  "handleVisibilityChange vis rnd now store s =
     (if vis = visible then
        (case store ''bigrocks_settings'' of
           None \<Rightarrow> Inr s
         | Some savedSettingsStr \<Rightarrow>
             if savedSettingsStr = [] then Inr s
             else
               (case jsonParse savedSettingsStr of
                  Inl SyntaxError \<Rightarrow> Inr s
                | Inl IllTyped \<Rightarrow> Inl IllTyped
                | Inr JNull \<Rightarrow> Inr s
                | Inr j \<Rightarrow>
                    (case settingsOfJson j of
                       None \<Rightarrow> Inl IllTyped
                     | Some savedSettings \<Rightarrow>
                         (let today = toISODate now
                          in if lastGeneratedDate savedSettings \<noteq> today
                             then Inr (s\<lparr>settings := newSettings rnd today savedSettings,
                                         isSummaryPending := False, currentRock := None\<rparr>)
                             else Inr s))))
      else Inr s)"

section \<open>Events\<close>

text \<open>
  A configuration is the component's state and the store. Each event carries what its
  handler takes from the environment; after the handler, the persistence effect writes
  the state.
\<close>

datatype event =
    Trigger real int
  | Respond string int bool
  | DismissSummary
  | DeleteActivity string
  | AddActivity string int string
  | VisibilityChange visibilityState real int
  | ChangeMinimum string
  | ChangeMaximum string
  | DismissOnboarding

fun handle :: "event \<Rightarrow> storage \<Rightarrow> AppState \<Rightarrow> error + AppState" where
  "handle (Trigger rnd now) store s = Inr (triggerNotification rnd now s)"
| "handle (Respond newId now answer) store s = Inr (handleRockResponse newId now answer s)"
| "handle DismissSummary store s = Inr (handleSummaryDismiss s)"
| "handle (DeleteActivity i) store s = Inr (removeActivity i s)"
| "handle (AddActivity newId now txt) store s = Inr (fst (addActivity newId now txt s))"
| "handle (VisibilityChange vis rnd now) store s = handleVisibilityChange vis rnd now store s"
| "handle (ChangeMinimum v) store s = Inr (onChangeMinimum v s)"
| "handle (ChangeMaximum v) store s = Inr (onChangeMaximum v s)"
| "handle DismissOnboarding store s = Inr (dismissOnboarding s)"

definition fire :: "event \<Rightarrow> AppState \<times> storage \<Rightarrow> error + AppState \<times> storage" where
  "fire e c =
     (case c of (s, store) \<Rightarrow>
        andThen (handle e store s) (\<lambda>s'. Inr (s', persist s' store)))"

fun run :: "event list \<Rightarrow> AppState \<times> storage \<Rightarrow> error + AppState \<times> storage" where
  "run [] c = Inr c"
| "run (e # es) c = andThen (fire e c) (run es)"

text \<open>
  Every id is a value of \<^verbatim>\<open>crypto.randomUUID()\<close> (lines 119 and 167), a text of 36
  characters, so no id is the empty string: \<open>properIds\<close> says so of a state, and
  \<open>freshId\<close> of the id an event brings.
\<close>

definition properIds :: "AppState \<Rightarrow> bool" where
  "properIds s =
     ((\<forall>a \<in> set (activities s). id_activity a \<noteq> [])
      \<and> (\<forall>a. currentRock s = Some a \<longrightarrow> id_activity a \<noteq> [])
      \<and> lastActivityId s \<noteq> Some [])"

fun freshId :: "event \<Rightarrow> bool" where
  "freshId (AddActivity newId now str) = (newId \<noteq> [])"
| "freshId _ = True"

section \<open>Statistics (src/components/StatsView.tsx)\<close>

text \<open>
  The filter of lines 41 to 45. \<open>startDate\<close> is the time value of the window's start,
  which date-fns computes from the chosen range, or \<open>None\<close> for all time; \<^verbatim>\<open>isAfter\<close>
  compares time values strictly. A missing \<^verbatim>\<open>isSummary\<close> is falsy.
\<close>

definition filteredLogs :: "ActivityLog list \<Rightarrow> int option \<Rightarrow> ActivityLog list" where
  "filteredLogs ls startDate =
     filter (\<lambda>log.
       if isSummary log = Some True \<or> activityId log = ''SUMMARY'' then False
       else if startDate = None then True
       else timestamp log > the startDate) ls"


text \<open>
  The percentage of line 49 is computed in double precision, and the rounding of the
  division and of the multiplication decides it at the half-way cases. A double is
  modelled by the rational it denotes. \<open>binary64 x\<close> is the double nearest to a rational
  \<open>x \<ge> 0\<close>, ties to the even significand: with \<open>2^e \<le> x < 2^(e+1)\<close> the doubles around \<open>x\<close>
  are the multiples of \<open>2^(e-52)\<close>. Subnormal numbers and overflow are left out; the
  quotients and products of line 49 are zero or lie between \<open>2^-32\<close> and 100.
\<close>

definition pow2 :: "int \<Rightarrow> rat" where
  "pow2 e = (if 0 \<le> e then 2 ^ nat e else 1 / 2 ^ nat (- e))"

definition ilog2 :: "rat \<Rightarrow> int" where
  "ilog2 x =
     (case quotient_of x of
        (p, q) \<Rightarrow> (let e0 = bitlen p - bitlen q in if pow2 e0 \<le> x then e0 else e0 - 1))"

definition roundHalfEven :: "rat \<Rightarrow> int" where
  "roundHalfEven y =
     (let f = \<lfloor>y\<rfloor>; r = y - of_int f
      in if r < 1 / 2 then f
         else if 1 / 2 < r then f + 1
         else if even f then f else f + 1)"

definition binary64 :: "rat \<Rightarrow> rat" where
  "binary64 x =
     (if x \<le> 0 then 0
      else (let ulp = pow2 (ilog2 x - 52) in of_int (roundHalfEven (x / ulp)) * ulp))"

definition fdiv :: "rat \<Rightarrow> rat \<Rightarrow> rat" where
  "fdiv a b = binary64 (a / b)"

definition fmul :: "rat \<Rightarrow> rat \<Rightarrow> rat" where
  "fmul a b = binary64 (a * b)"

text \<open>\<^verbatim>\<open>Math.round\<close>: the nearest integer, a half going up.\<close>

definition mathRound :: "rat \<Rightarrow> int" where
  "mathRound x = \<lfloor>x + 1 / 2\<rfloor>"

text \<open>
  The value of the \<^verbatim>\<open>useMemo\<close> of lines 15 to 52, as the triple of \<^verbatim>\<open>completed\<close>,
  \<^verbatim>\<open>total\<close> and \<^verbatim>\<open>percentage\<close>.
\<close>

definition stats :: "ActivityLog list \<Rightarrow> int option \<Rightarrow> nat \<times> nat \<times> int" where
  "stats ls startDate =
     (let fl = filteredLogs ls startDate;
          completed_n = length (filter completed fl);
          total = length fl;
          percentage = (if total = 0 then 0
                        else mathRound (fmul (fdiv (of_nat completed_n) (of_nat total)) 100))
      in (completed_n, total, percentage))"


section \<open>Example states\<close>

definition rockA :: Activity where
  "rockA = \<lparr>id_activity = ''a'', text_activity = ''Practice Spanish'', createdAt = 1\<rparr>"

definition rockB :: Activity where
  "rockB = \<lparr>id_activity = ''b'', text_activity = ''Draw a Picture'', createdAt = 2\<rparr>"

definition exampleSettings :: AppSettings where
  "exampleSettings =
     \<lparr>minNotifications = 3, maxNotifications = 8, notificationsToday = 5,
      lastGeneratedDate = ''2024-01-01''\<rparr>"

text \<open>The time value of 1 January 2024, 00:00 UTC, and of the same hour a day later.\<close>

definition newYear :: int where
  "newYear = 1704067200000"

definition nextDay :: int where
  "nextDay = 1704153600000"

definition exampleIdle :: AppState where
  "exampleIdle =
     \<lparr>activities = [rockA, rockB], logs = [], settings = exampleSettings,
      currentRock = None, lastActivityId = Some ''a'', isSummaryPending = False,
      hasSeenOnboarding = True\<rparr>"

definition examplePrompting :: AppState where
  "examplePrompting = exampleIdle\<lparr>currentRock := Some rockB\<rparr>"

text \<open>The two flags of the prompt state are not both truthy.\<close>

definition exclusive :: "AppState \<Rightarrow> bool" where
  "exclusive s = (\<not> (currentRock s \<noteq> None \<and> isSummaryPending s))"

text \<open>
  The settings entry of a store is readable when the visibility listener gets through
  it: it is missing or empty, does not parse, or is \<^verbatim>\<open>null\<close> or a document of
  settings.
\<close>

definition settingsSaved :: "storage \<Rightarrow> bool" where
  "settingsSaved store =
     (case store ''bigrocks_settings'' of
        None \<Rightarrow> True
      | Some str \<Rightarrow>
          str = []
          \<or> (case jsonParse str of
                Inl e \<Rightarrow> e = SyntaxError
              | Inr j \<Rightarrow> j = JNull \<or> settingsOfJson j \<noteq> None))"

text \<open>Log lists: ten entries with seven completed, forty with twenty-three.\<close>

definition doneLog :: ActivityLog where
  "doneLog =
     \<lparr>id_log = ''log-1'', activityId = ''a'', activityText = ''Practice Spanish'',
      timestamp = 1704067200000, completed = True, isSummary = None\<rparr>"

definition missedLog :: ActivityLog where
  "missedLog = doneLog\<lparr>id_log := ''log-2'', completed := False\<rparr>"

definition tenLogs :: "ActivityLog list" where
  "tenLogs = replicate 7 doneLog @ replicate 3 missedLog"

definition fortyLogs :: "ActivityLog list" where
  "fortyLogs = replicate 23 doneLog @ replicate 17 missedLog"

section \<open>The text of a value parses back to the value\<close>

subsection \<open>Digits\<close>

lemma hexDigit_value: "d < 16 \<Longrightarrow> digitValue (hexDigit d) = Some d"
proof -
  have "\<forall>d \<in> set [0..<16]. digitValue (hexDigit d) = Some d" by code_simp
  then show "d < 16 \<Longrightarrow> digitValue (hexDigit d) = Some d" by simp
qed

lemma hexDigit_decimal: "d < 10 \<Longrightarrow> isRadixDigit 10 (hexDigit d)"
  using hexDigit_value [of d] by (simp add: isRadixDigit_def)

lemma hexDigit_hex: "d < 16 \<Longrightarrow> isRadixDigit 16 (hexDigit d)"
  using hexDigit_value [of d] by (simp add: isRadixDigit_def)

lemma showNat_digits: "\<forall>c \<in> set (showNat n). isRadixDigit 10 c"
proof (induction n rule: showNat.induct)
  case (1 n)
  show ?case
  proof (cases "n < 10")
    case True
    then show ?thesis by (subst showNat.simps) (simp add: hexDigit_decimal)
  next
    case False
    with 1 show ?thesis by (subst showNat.simps) (simp add: hexDigit_decimal)
  qed
qed

lemma showNat_nonempty: "showNat n \<noteq> []"
  by (subst showNat.simps) simp

lemma radixValue_snoc:
  "radixValue R (ds @ [c]) = radixValue R ds * int R + int (the (digitValue c))"
  by (simp add: radixValue_def)

lemma radixValue_showNat: "radixValue 10 (showNat n) = int n"
proof (induction n rule: showNat.induct)
  case (1 n)
  show ?case
  proof (cases "n < 10")
    case True
    then show ?thesis
      by (subst showNat.simps) (simp add: radixValue_def hexDigit_value)
  next
    case False
    then have "radixValue 10 (showNat (n div 10)) = int (n div 10)" using 1 by simp
    moreover have "digitValue (hexDigit (n mod 10)) = Some (n mod 10)"
      by (simp add: hexDigit_value)
    moreover have "int (n div 10) * 10 + int (n mod 10) = int n"
    proof -
      have "int (n div 10) * 10 + int (n mod 10) = int (n div 10 * 10 + n mod 10)"
        by (simp only: of_nat_add of_nat_mult of_nat_numeral)
      also have "\<dots> = int n" by (simp only: div_mult_mod_eq)
      finally show ?thesis .
    qed
    ultimately show ?thesis using False
      by (subst showNat.simps) (simp add: radixValue_snoc)
  qed
qed

lemma hexDigit_zero: "d < 10 \<Longrightarrow> hexDigit d = CHR ''0'' \<longleftrightarrow> d = 0"
proof -
  have "\<forall>d \<in> set [0..<10]. (hexDigit d = CHR ''0'' \<longleftrightarrow> d = 0)" by code_simp
  then show "d < 10 \<Longrightarrow> hexDigit d = CHR ''0'' \<longleftrightarrow> d = 0" by simp
qed

lemma showNat_hd: "hd (showNat n) = CHR ''0'' \<Longrightarrow> n = 0"
proof (induction n rule: showNat.induct)
  case (1 n)
  show ?case
  proof (cases "n < 10")
    case True
    with 1(2) show ?thesis by (subst (asm) showNat.simps) (simp add: hexDigit_zero)
  next
    case False
    then have "hd (showNat n) = hd (showNat (n div 10))"
      by (subst showNat.simps) (simp add: showNat_nonempty)
    with 1 False have "n div 10 = 0" by simp
    with False show ?thesis by simp
  qed
qed

lemma showNat_no_leading_zero: "1 < length (showNat n) \<Longrightarrow> hd (showNat n) \<noteq> CHR ''0''"
proof
  assume l: "1 < length (showNat n)" and "hd (showNat n) = CHR ''0''"
  then have "n = 0" by (simp add: showNat_hd)
  then have "showNat n = [hexDigit 0]" by (subst showNat.simps) simp
  with l show False by simp
qed


subsection \<open>Numbers\<close>

lemma okRest_not_digit: "okRest rest \<Longrightarrow> rest = [] \<or> \<not> isRadixDigit 10 (hd rest)"
  by (auto simp: okRest_def isRadixDigit_def digitValue_def)

lemma takeWhile_digits:
  assumes "okRest rest"
  shows "takeWhile (isRadixDigit 10) (showNat n @ rest) = showNat n"
    and "dropWhile (isRadixDigit 10) (showNat n @ rest) = rest"
proof -
  have r: "takeWhile (isRadixDigit 10) rest = []" "dropWhile (isRadixDigit 10) rest = rest"
    using okRest_not_digit [OF assms] by (cases rest; simp)+
  show "takeWhile (isRadixDigit 10) (showNat n @ rest) = showNat n"
    using showNat_digits [of n] r by (simp add: takeWhile_append2)
  show "dropWhile (isRadixDigit 10) (showNat n @ rest) = rest"
    using showNat_digits [of n] r by (simp add: dropWhile_append2)
qed

lemma showNat_not_minus: "take 1 (showNat n @ rest) \<noteq> ''-''"
proof -
  obtain c cs where s: "showNat n = c # cs" using showNat_nonempty [of n] by (cases "showNat n") auto
  then have "isRadixDigit 10 c" using showNat_digits [of n] by simp
  then have "c \<noteq> CHR ''-''" by (auto simp: isRadixDigit_def digitValue_def)
  with s show ?thesis by simp
qed

lemma okRest_no_fraction:
  "okRest rest \<Longrightarrow> take 1 rest \<noteq> ''.'' \<and> take 1 rest \<noteq> ''e'' \<and> take 1 rest \<noteq> ''E''"
  by (cases rest) (auto simp: okRest_def)

lemma parseNumber_showInt:
  assumes "okRest rest"
  shows "parseNumber (showInt i @ rest) = Inr (i, rest)"
proof (cases "i < 0")
  case True
  then have s: "showInt i @ rest = CHR ''-'' # (showNat (nat (- i)) @ rest)"
    by (simp add: showInt_def)
  show ?thesis
    unfolding s parseNumber_def
    using True showNat_no_leading_zero [of "nat (- i)"] okRest_no_fraction [OF assms]
    by (simp add: Let_def takeWhile_digits [OF assms] showNat_nonempty radixValue_showNat)
next
  case False
  then have s: "showInt i @ rest = showNat (nat i) @ rest" by (simp add: showInt_def)
  show ?thesis
    unfolding s parseNumber_def
    using False showNat_no_leading_zero [of "nat i"] okRest_no_fraction [OF assms]
      showNat_not_minus [of "nat i" rest]
    by (simp add: Let_def takeWhile_digits [OF assms] showNat_nonempty radixValue_showNat)
qed

subsection \<open>Strings\<close>

lemma digitValue_zero: "digitValue (CHR ''0'') = Some 0"
  by (simp add: digitValue_def)

lemma hex4_control:
  assumes "n < 32"
  shows "hex4 (CHR ''0'') (CHR ''0'') (hexDigit (n div 16)) (hexDigit (n mod 16)) = Some n"
proof -
  have d: "n div 16 < 16" "n mod 16 < 16" using assms by simp_all
  have "int (n div 16) * 16 + int (n mod 16) = int (n div 16 * 16 + n mod 16)"
    by (simp only: of_nat_add of_nat_mult of_nat_numeral)
  also have "\<dots> = int n" by (simp only: div_mult_mod_eq)
  finally have v: "int (n div 16) * 16 + int (n mod 16) = int n" .
  have "radixValue 16 [CHR ''0'', CHR ''0'', hexDigit (n div 16), hexDigit (n mod 16)] = int n"
    by (simp add: radixValue_def digitValue_zero hexDigit_value d v)
  moreover have "isRadixDigit 16 (CHR ''0'')" by (simp add: isRadixDigit_def digitValue_zero)
  ultimately show ?thesis by (simp add: hex4_def hexDigit_hex d)
qed

lemma parseChars_special:
  assumes "unescape e = Some c" "e \<noteq> CHR ''u''"
  shows "parseChars (CHR 0x5C # e # t) = consChar c (parseChars t)"
  using assms by simp

lemma parseChars_plain:
  assumes "c \<noteq> CHR 0x22" "c \<noteq> CHR 0x5C" "\<not> (of_char c :: nat) < 32"
  shows "parseChars (c # t) = consChar c (parseChars t)"
  using assms by simp

lemma parseChars_control:
  assumes "(of_char c :: nat) < 32"
  shows "parseChars (CHR 0x5C # CHR ''u'' # CHR ''0'' # CHR ''0'' #
           hexDigit (of_char c div 16) # hexDigit (of_char c mod 16) # t)
         = consChar c (parseChars t)"
proof -
  have "hex4 (CHR ''0'') (CHR ''0'') (hexDigit (of_char c div 16))
      (hexDigit (of_char c mod 16)) = Some (of_char c)"
    using assms by (rule hex4_control)
  moreover have "(of_char c :: nat) < 256" using assms by simp
  ultimately show ?thesis by simp
qed

lemma parseChars_escapeChar: "parseChars (escapeChar c @ t) = consChar c (parseChars t)"
proof -
  consider "c = CHR 0x22" | "c = CHR 0x5C" | "c = CHR 0x08" | "c = CHR 0x0C" | "c = CHR 0x0A"
    | "c = CHR 0x0D" | "c = CHR 0x09"
    | "c \<notin> {CHR 0x22, CHR 0x5C, CHR 0x08, CHR 0x0C, CHR 0x0A, CHR 0x0D, CHR 0x09}"
        "(of_char c :: nat) < 32"
    | "c \<notin> {CHR 0x22, CHR 0x5C, CHR 0x08, CHR 0x0C, CHR 0x0A, CHR 0x0D, CHR 0x09}"
        "\<not> (of_char c :: nat) < 32"
    by blast
  then show ?thesis
  proof cases
    case 1
    have "escapeChar c = [CHR 0x5C, CHR 0x22]" by (simp add: escapeChar_def 1)
    moreover have "unescape (CHR 0x22) = Some c" by (simp add: unescape_def 1)
    ultimately show ?thesis by (simp add: parseChars_special del: parseChars.simps)
  next
    case 2
    have "escapeChar c = [CHR 0x5C, CHR 0x5C]" by (simp add: escapeChar_def 2)
    moreover have "unescape (CHR 0x5C) = Some c" by (simp add: unescape_def 2)
    ultimately show ?thesis by (simp add: parseChars_special del: parseChars.simps)
  next
    case 3
    have "escapeChar c = [CHR 0x5C, CHR ''b'']" by (simp add: escapeChar_def 3)
    moreover have "unescape (CHR ''b'') = Some c" by (simp add: unescape_def 3)
    ultimately show ?thesis by (simp add: parseChars_special del: parseChars.simps)
  next
    case 4
    have "escapeChar c = [CHR 0x5C, CHR ''f'']" by (simp add: escapeChar_def 4)
    moreover have "unescape (CHR ''f'') = Some c" by (simp add: unescape_def 4)
    ultimately show ?thesis by (simp add: parseChars_special del: parseChars.simps)
  next
    case 5
    have "escapeChar c = [CHR 0x5C, CHR ''n'']" by (simp add: escapeChar_def 5)
    moreover have "unescape (CHR ''n'') = Some c" by (simp add: unescape_def 5)
    ultimately show ?thesis by (simp add: parseChars_special del: parseChars.simps)
  next
    case 6
    have "escapeChar c = [CHR 0x5C, CHR ''r'']" by (simp add: escapeChar_def 6)
    moreover have "unescape (CHR ''r'') = Some c" by (simp add: unescape_def 6)
    ultimately show ?thesis by (simp add: parseChars_special del: parseChars.simps)
  next
    case 7
    have "escapeChar c = [CHR 0x5C, CHR ''t'']" by (simp add: escapeChar_def 7)
    moreover have "unescape (CHR ''t'') = Some c" by (simp add: unescape_def 7)
    ultimately show ?thesis by (simp add: parseChars_special del: parseChars.simps)
  next
    case 8
    then have "escapeChar c = [CHR 0x5C, CHR ''u'', CHR ''0'', CHR ''0'',
              hexDigit (of_char c div 16), hexDigit (of_char c mod 16)]"
      by (simp add: escapeChar_def)
    then show ?thesis using 8(2) by (simp add: parseChars_control del: parseChars.simps)
  next
    case 9
    then have "escapeChar c = [c]" by (simp add: escapeChar_def)
    then show ?thesis using 9 by (simp add: parseChars_plain del: parseChars.simps)
  qed
qed

lemma parseChars_end: "parseChars (CHR 0x22 # rest) = Inr ([], rest)"
  by simp

lemma parseChars_quote:
  "parseChars (concat (map escapeChar str) @ CHR 0x22 # rest) = Inr (str, rest)"
  by (induction str) (simp_all add: parseChars_escapeChar parseChars_end consChar_def del: parseChars.simps(2))

lemma quote_parse: "quote str @ rest = CHR 0x22 # (concat (map escapeChar str) @ CHR 0x22 # rest)"
  by (simp add: quote_def)

subsection \<open>Values\<close>

lemma digit_plain:
  assumes "isRadixDigit 10 c"
  shows "\<not> isWs c" "c \<noteq> CHR ''n''" "c \<noteq> CHR ''t''" "c \<noteq> CHR ''f''" "c \<noteq> CHR 0x22"
    "c \<noteq> CHR ''[''" "c \<noteq> CHR ''{''" "c \<noteq> CHR '']''" "c \<noteq> CHR ''}''"
  using assms by (auto simp: isRadixDigit_def digitValue_def isWs_def)

lemma showInt_start:
  "\<exists>c cs. showInt i = c # cs \<and> (c = CHR ''-'' \<or> isRadixDigit 10 c)"
proof -
  obtain c cs where s: "showNat (nat \<bar>i\<bar>) = c # cs"
    using showNat_nonempty [of "nat \<bar>i\<bar>"] by (cases "showNat (nat \<bar>i\<bar>)") auto
  then have "isRadixDigit 10 c" using showNat_digits [of "nat \<bar>i\<bar>"] by simp
  with s show ?thesis by (cases "i < 0") (auto simp: showInt_def abs_if)
qed

lemma stringify_hd: "stringify j \<noteq> [] \<and> startChar (hd (stringify j))"
proof (cases j)
  case JNull
  then show ?thesis by (simp add: startChar_def isWs_def)
next
  case (JBool b)
  then show ?thesis by (cases b) (simp_all add: startChar_def isWs_def)
next
  case (JNum i)
  from showInt_start [of i] obtain c cs where
    s: "showInt i = c # cs" and c: "c = CHR ''-'' \<or> isRadixDigit 10 c" by blast
  from c have "startChar c"
  proof
    assume "c = CHR ''-''"
    then show ?thesis by (simp add: startChar_def isWs_def)
  next
    assume "isRadixDigit 10 c"
    from digit_plain(1,8,9) [OF this] show ?thesis by (simp add: startChar_def)
  qed
  with s JNum show ?thesis by simp
next
  case (JStr str)
  then show ?thesis by (simp add: startChar_def isWs_def quote_def)
next
  case (JArr xs)
  then show ?thesis by (simp add: startChar_def isWs_def)
next
  case (JObj fs)
  then show ?thesis by (simp add: startChar_def isWs_def)
qed

lemma stringify_start: "\<exists>c cs. stringify j = c # cs \<and> startChar c"
  using stringify_hd [of j] by (cases "stringify j") simp_all

lemma skipWs_start: "startChar c \<Longrightarrow> skipWs (c # cs) = c # cs"
  by (simp add: skipWs_def startChar_def)

lemma skipWs_stringify: "skipWs (stringify j @ rest) = stringify j @ rest"
  using stringify_start [of j] by (auto simp: skipWs_start)

lemma elements_start: "xs \<noteq> [] \<Longrightarrow> \<exists>c cs. elements xs = c # cs \<and> startChar c"
proof (cases xs)
  case Nil
  then show "xs \<noteq> [] \<Longrightarrow> ?thesis" by simp
next
  case (Cons x ys)
  from stringify_start [of x] obtain c cs where "stringify x = c # cs" "startChar c" by blast
  with Cons show ?thesis by (cases ys) auto
qed

lemma members_start: "fs \<noteq> [] \<Longrightarrow> \<exists>cs. members fs = CHR 0x22 # cs"
proof (cases fs)
  case Nil
  then show "fs \<noteq> [] \<Longrightarrow> ?thesis" by simp
next
  case (Cons f gs)
  obtain k v where "f = (k, v)" by (cases f)
  with Cons show ?thesis by (cases gs) (auto simp: quote_def)
qed

lemma skipWs_punct:
  "skipWs (CHR '','' # cs) = CHR '','' # cs"
  "skipWs (CHR '']'' # cs) = CHR '']'' # cs"
  "skipWs (CHR ''}'' # cs) = CHR ''}'' # cs"
  "skipWs (CHR '':'' # cs) = CHR '':'' # cs"
  "skipWs (CHR 0x22 # cs) = CHR 0x22 # cs"
  by (simp_all add: skipWs_def isWs_def)

lemma okRest_punct:
  "okRest (CHR '','' # cs)" "okRest (CHR '']'' # cs)" "okRest (CHR ''}'' # cs)" "okRest []"
  by (simp_all add: okRest_def)

lemma parseValue_null: "parseValue (Suc n) (''null'' @ rest) = Inr (JNull, rest)"
  by (simp add: literal_def)

lemma parseValue_true: "parseValue (Suc n) (''true'' @ rest) = Inr (JBool True, rest)"
  by (simp add: literal_def)

lemma parseValue_false: "parseValue (Suc n) (''false'' @ rest) = Inr (JBool False, rest)"
  by (simp add: literal_def)

lemma parseValue_string: "parseValue (Suc n) (quote str @ rest) = Inr (JStr str, rest)"
  by (simp add: quote_parse parseChars_quote del: parseChars.simps)

lemma parseValue_number:
  assumes "okRest rest"
  shows "parseValue (Suc n) (showInt i @ rest) = Inr (JNum i, rest)"
proof -
  from showInt_start [of i] obtain c cs where
    s: "showInt i = c # cs" and c: "c = CHR ''-'' \<or> isRadixDigit 10 c" by blast
  from c have n: "c \<noteq> CHR ''n''" "c \<noteq> CHR ''t''" "c \<noteq> CHR ''f''" "c \<noteq> CHR 0x22"
    "c \<noteq> CHR ''[''" "c \<noteq> CHR ''{''"
    using digit_plain [of c] by auto
  have "parseValue (Suc n) (c # cs @ rest) =
      (case parseNumber (c # cs @ rest) of Inl e \<Rightarrow> Inl e | Inr (i, r) \<Rightarrow> Inr (JNum i, r))"
    using n by simp
  moreover have "parseNumber (c # cs @ rest) = Inr (i, rest)"
    using parseNumber_showInt [OF assms, of i] s by simp
  ultimately show ?thesis using s by simp
qed

lemma parseValue_array_empty: "parseValue (Suc n) (''[]'' @ rest) = Inr (JArr [], rest)"
  by (simp add: skipWs_punct)

lemma parseValue_object_empty: "parseValue (Suc n) (''{}'' @ rest) = Inr (JObj [], rest)"
  by (simp add: skipWs_punct)

lemma parseValue_array:
  assumes "xs \<noteq> []" "parseElements n (elements xs @ CHR '']'' # rest) = Inr (xs, rest)"
  shows "parseValue (Suc n) (CHR ''['' # elements xs @ CHR '']'' # rest) = Inr (JArr xs, rest)"
proof -
  from elements_start [OF assms(1)] obtain c cs where
    e: "elements xs = c # cs" and c: "startChar c" by blast
  have "skipWs (c # cs @ CHR '']'' # rest) = c # cs @ CHR '']'' # rest"
    using c by (rule skipWs_start)
  moreover have "c \<noteq> CHR '']''" using c by (simp add: startChar_def)
  ultimately show ?thesis using assms(2) e by simp
qed

lemma parseValue_object:
  assumes "fs \<noteq> []" "parseMembers n (members fs @ CHR ''}'' # rest) = Inr (fs, rest)"
  shows "parseValue (Suc n) (CHR ''{'' # members fs @ CHR ''}'' # rest) = Inr (JObj fs, rest)"
proof -
  from members_start [OF assms(1)] obtain cs where e: "members fs = CHR 0x22 # cs" by blast
  then show ?thesis using assms(2) by (simp add: skipWs_punct)
qed

subsection \<open>Arrays, objects and the round trip\<close>

lemma parseElements_last:
  assumes "parseValue n str = Inr (x, CHR '']'' # rest)"
  shows "parseElements (Suc n) str = Inr ([x], rest)"
  using assms by (simp add: skipWs_punct)

lemma parseElements_more:
  assumes "parseValue n str = Inr (x, CHR '','' # tail1)"
    and "parseElements n (skipWs tail1) = Inr (xs, rest)"
  shows "parseElements (Suc n) str = Inr (x # xs, rest)"
  using assms by (simp add: skipWs_punct)

lemma parseMembers_key:
  "parseChars (drop 1 (quote k @ CHR '':'' # tail1)) = Inr (k, CHR '':'' # tail1)"
  "take 1 (quote k @ CHR '':'' # tail1) = [CHR 0x22]"
  by (simp_all add: quote_parse parseChars_quote del: parseChars.simps)

lemma parseMembers_last_step:
  assumes "take 1 str = [CHR 0x22]"
    and "parseChars (drop 1 str) = Inr (k, CHR '':'' # tail1)"
    and "parseValue n (skipWs tail1) = Inr (v, CHR ''}'' # rest)"
  shows "parseMembers (Suc n) str = Inr ([(k, v)], rest)"
  using assms by (simp add: skipWs_punct del: parseChars.simps)

lemma parseMembers_more_step:
  assumes "take 1 str = [CHR 0x22]"
    and "parseChars (drop 1 str) = Inr (k, CHR '':'' # tail1)"
    and "parseValue n (skipWs tail1) = Inr (v, CHR '','' # tail2)"
    and "parseMembers n (skipWs tail2) = Inr (fs, rest)"
  shows "parseMembers (Suc n) str = Inr ((k, v) # fs, rest)"
  using assms by (simp add: skipWs_punct del: parseChars.simps)

lemma parseMembers_last:
  assumes "parseValue n (skipWs tail1) = Inr (v, CHR ''}'' # rest)"
  shows "parseMembers (Suc n) (quote k @ CHR '':'' # tail1) = Inr ([(k, v)], rest)"
  using parseMembers_key(2) parseMembers_key(1) assms by (rule parseMembers_last_step)

lemma parseMembers_more:
  assumes "parseValue n (skipWs tail1) = Inr (v, CHR '','' # tail2)"
    and "parseMembers n (skipWs tail2) = Inr (fs, rest)"
  shows "parseMembers (Suc n) (quote k @ CHR '':'' # tail1) = Inr ((k, v) # fs, rest)"
  using parseMembers_key(2) parseMembers_key(1) assms by (rule parseMembers_more_step)

lemma stringify_length: "0 < length (stringify j)"
  using stringify_hd [of j] by simp

lemma parse_stringify_aux:
  shows "okRest rest \<Longrightarrow> length (stringify j) \<le> fuel \<Longrightarrow>
           parseValue fuel (stringify j @ rest) = Inr (j, rest)"
    and "xs \<noteq> [] \<Longrightarrow> length (elements xs) + 1 \<le> fuel \<Longrightarrow>
           parseElements fuel (elements xs @ CHR '']'' # rest) = Inr (xs, rest)"
    and "fs \<noteq> [] \<Longrightarrow> length (members fs) + 1 \<le> fuel \<Longrightarrow>
           parseMembers fuel (members fs @ CHR ''}'' # rest) = Inr (fs, rest)"
proof (induction j and xs and fs arbitrary: fuel rest and fuel rest and fuel rest
       rule: stringify_elements_members.induct)
  case 1
  then obtain n where "fuel = Suc n" by (cases fuel) auto
  then show ?case using parseValue_null by simp
next
  case (2 b)
  then obtain n where "fuel = Suc n" by (cases fuel) (auto split: if_splits)
  then show ?case using parseValue_true parseValue_false by (cases b) simp_all
next
  case (3 i)
  from stringify_length [of "JNum i"] 3(2) obtain n where "fuel = Suc n" by (cases fuel) auto
  then show ?case using parseValue_number [OF 3(1)] by simp
next
  case (4 str)
  from stringify_length [of "JStr str"] 4(2) obtain n where "fuel = Suc n"
    by (cases fuel) auto
  then show ?case using parseValue_string by simp
next
  case (5 xs)
  from 5(3) obtain n where n: "fuel = Suc n" "length (elements xs) + 1 \<le> n"
    by (cases fuel) auto
  show ?case
  proof (cases "xs = []")
    case True
    then show ?thesis using parseValue_array_empty [of n rest] n by simp
  next
    case False
    from "5.IH" [OF False n(2)]
    have "parseElements n (elements xs @ CHR '']'' # rest) = Inr (xs, rest)" .
    from parseValue_array [OF False this] n show ?thesis by simp
  qed
next
  case (6 fs)
  from 6(3) obtain n where n: "fuel = Suc n" "length (members fs) + 1 \<le> n"
    by (cases fuel) auto
  show ?case
  proof (cases "fs = []")
    case True
    then show ?thesis using parseValue_object_empty [of n rest] n by simp
  next
    case False
    from "6.IH" [OF False n(2)]
    have "parseMembers n (members fs @ CHR ''}'' # rest) = Inr (fs, rest)" .
    from parseValue_object [OF False this] n show ?thesis by simp
  qed
next
  case 7
  then show ?case by simp
next
  case (8 x)
  from 8(3) obtain n where n: "fuel = Suc n" "length (stringify x) \<le> n"
    by (cases fuel) auto
  from "8.IH" [OF okRest_punct(2) n(2)]
  have "parseValue n (stringify x @ CHR '']'' # rest) = Inr (x, CHR '']'' # rest)" .
  from parseElements_last [OF this] n show ?case by simp
next
  case (9 x y ys)
  let ?tl = "elements (y # ys) @ CHR '']'' # rest"
  from 9(4) stringify_length [of x] obtain n where
    n: "fuel = Suc n" "length (stringify x) \<le> n" "length (elements (y # ys)) + 1 \<le> n"
    by (cases fuel) auto
  from "9.IH"(1) [OF okRest_punct(1) n(2)]
  have 1: "parseValue n (stringify x @ CHR '','' # ?tl) = Inr (x, CHR '','' # ?tl)" .
  from elements_start [of "y # ys"] have "skipWs ?tl = ?tl"
    by (auto simp: skipWs_start)
  with "9.IH"(2) [OF _ n(3), of rest]
  have 2: "parseElements n (skipWs ?tl) = Inr (y # ys, rest)" by simp
  from parseElements_more [OF 1 2] n show ?case by simp
next
  case 10
  then show ?case by simp
next
  case (11 k v)
  from 11(3) obtain n where n: "fuel = Suc n" "length (stringify v) \<le> n"
    by (cases fuel) (auto simp: quote_def)
  from "11.IH" [OF okRest_punct(3) n(2)]
  have "parseValue n (skipWs (stringify v @ CHR ''}'' # rest)) = Inr (v, CHR ''}'' # rest)"
    by (simp add: skipWs_stringify)
  from parseMembers_last [OF this] n show ?case by simp
next
  case (12 k v m ms)
  let ?tl = "members (m # ms) @ CHR ''}'' # rest"
  from 12(4) stringify_length [of v] obtain n where
    n: "fuel = Suc n" "length (stringify v) \<le> n" "length (members (m # ms)) + 1 \<le> n"
    by (cases fuel) (auto simp: quote_def)
  from "12.IH"(1) [OF okRest_punct(1) n(2)]
  have 1: "parseValue n (skipWs (stringify v @ CHR '','' # ?tl)) = Inr (v, CHR '','' # ?tl)"
    by (simp add: skipWs_stringify)
  from members_start [of "m # ms"] have "skipWs ?tl = ?tl"
    by (auto simp: skipWs_punct)
  with "12.IH"(2) [OF _ n(3), of rest]
  have 2: "parseMembers n (skipWs ?tl) = Inr (m # ms, rest)" by simp
  from parseMembers_more [OF 1 2] n show ?case by simp
qed

theorem jsonParse_stringify: "jsonParse (stringify j) = Inr j"
proof -
  have "parseValue (Suc (length (stringify j))) (stringify j @ []) = Inr (j, [])"
    by (rule parse_stringify_aux(1)) (simp_all add: okRest_punct)
  then show ?thesis using skipWs_stringify [of j "[]"] by (simp add: jsonParse_def skipWs_def)
qed

lemma stringify_nonempty: "stringify j \<noteq> []"
  using stringify_hd [of j] by simp

section \<open>Properties of the state machine\<close>

subsection \<open>The day key and the number parser at some inputs\<close>

lemma toISODate_examples:
  "toISODate 0 = ''1970-01-01''"
  "toISODate (- 1) = ''1969-12-31''"
  "toISODate 951782400000 = ''2000-02-29''"
  "toISODate 1704067199999 = ''2023-12-31''"
  "toISODate newYear = ''2024-01-01''"
  "toISODate nextDay = ''2024-01-02''"
  "toISODate 253402300800000 = ''+010000-01-01''"
  unfolding newYear_def nextDay_def by code_simp+

lemma parseInt_examples:
  "parseInt ''7'' = Some 7"
  "parseInt ''  42abc'' = Some 42"
  "parseInt ''1.5'' = Some 1"
  "parseInt ''0x1F'' = Some 31"
  "parseInt ''-0'' = Some 0"
  "parseInt [] = None"
  "parseInt ''abc'' = None"
  by code_simp+

subsection \<open>Random indices\<close>

lemma floor_index_bounds:
  assumes "0 \<le> rnd" "rnd < 1" "0 < n"
  shows "0 \<le> \<lfloor>rnd * real n\<rfloor> \<and> \<lfloor>rnd * real n\<rfloor> < int n"
proof -
  have "0 \<le> rnd * real n" using assms by simp
  moreover have "rnd * real n < real n" using assms by simp
  ultimately show ?thesis by (simp add: floor_less_iff)
qed

lemma at_index_random:
  assumes "0 \<le> rnd" "rnd < 1" "xs \<noteq> []"
  shows "\<exists>x \<in> set xs. at_index xs \<lfloor>rnd * real (length xs)\<rfloor> = Some x"
proof -
  have "0 < length xs" using assms by simp
  from floor_index_bounds [OF assms(1,2) this]
  have b: "0 \<le> \<lfloor>rnd * real (length xs)\<rfloor>" "\<lfloor>rnd * real (length xs)\<rfloor> < int (length xs)"
    by simp_all
  then have "nat \<lfloor>rnd * real (length xs)\<rfloor> < length xs" by linarith
  then have "xs ! nat \<lfloor>rnd * real (length xs)\<rfloor> \<in> set xs" by (rule nth_mem)
  with b show ?thesis by (simp add: at_index_def)
qed

lemma distinct_filter_eq_le1:
  "distinct (map f xs) \<Longrightarrow> length (filter (\<lambda>a. f a = k) xs) \<le> 1"
  by (induction xs) (auto simp: filter_empty_conv image_iff)

lemma filter_others_nonempty:
  assumes "distinct (map f xs)" "1 < length xs"
  shows "filter (\<lambda>a. f a \<noteq> k) xs \<noteq> []"
proof -
  have "length (filter (\<lambda>a. f a = k) xs) + length (filter (\<lambda>a. \<not> f a = k) xs) = length xs"
    by (rule sum_length_filter_compl)
  with distinct_filter_eq_le1 [OF assms(1), of k] assms(2)
  have "length (filter (\<lambda>a. f a \<noteq> k) xs) \<noteq> 0" by linarith
  then show ?thesis by (simp only: length_0_conv not_False_eq_True)
qed

lemma pickRock_in_pool:
  assumes "0 \<le> rnd" "rnd < 1" "acts \<noteq> []" "distinct (map id_activity acts)"
  shows "\<exists>a \<in> set acts. pickRock rnd acts lastId = Some a"
proof (cases "length acts > 1 \<and> truthyString lastId")
  case True
  then obtain k where k: "lastId = Some k"
    by (auto simp: truthyString_def split: option.splits)
  let ?pool = "filter (\<lambda>a. id_activity a \<noteq> k) acts"
  have "?pool \<noteq> []" using filter_others_nonempty [OF assms(4)] True by blast
  from at_index_random [OF assms(1,2) this]
  obtain a where "a \<in> set ?pool" "at_index ?pool \<lfloor>rnd * real (length ?pool)\<rfloor> = Some a"
    by blast
  then show ?thesis using True k by (auto simp: pickRock_def Let_def)
next
  case False
  from at_index_random [OF assms(1,2,3)] False
  show ?thesis by (auto simp: pickRock_def Let_def)
qed

subsection \<open>Trigger\<close>

text \<open>
  Claim C1. In an Idle state whose activities have unique ids, as the data model has
  them, and for a random value in \<open>[0, 1)\<close>: when the number of log entries of the
  current day that are not summary entries reaches \<open>notificationsToday\<close>, Trigger sets
  \<open>isSummaryPending\<close> and the machine is in SummaryPending; below the quota, an empty
  pool leaves the state as it is, Idle, and otherwise the machine is in Prompting for
  an activity of the pool, with nothing else changed.
\<close>

theorem C1_trigger_from_idle:
  assumes "Idle s" "0 \<le> rnd" "rnd < 1" "distinct (map id_activity (activities s))"
  shows "(notificationsToday (settings s)
            \<le> int (length (filter (\<lambda>l. toISODate (timestamp l) = toISODate now
                                        \<and> activityId l \<noteq> ''SUMMARY'') (logs s)))
          \<longrightarrow> triggerNotification rnd now s = s\<lparr>isSummaryPending := True\<rparr>
              \<and> SummaryPending (triggerNotification rnd now s))
       \<and> (int (length (filter (\<lambda>l. toISODate (timestamp l) = toISODate now
                                        \<and> activityId l \<noteq> ''SUMMARY'') (logs s)))
            < notificationsToday (settings s) \<longrightarrow>
            (if activities s = []
             then triggerNotification rnd now s = s \<and> Idle (triggerNotification rnd now s)
             else \<exists>a \<in> set (activities s).
                    triggerNotification rnd now s = s\<lparr>currentRock := Some a\<rparr>
                    \<and> Prompting a (triggerNotification rnd now s)))"
proof -
  have idle: "currentRock s = None" "\<not> isSummaryPending s"
    using assms(1) by (simp_all add: Idle_def)
  show ?thesis
  proof (cases "activities s = []")
    case True
    then show ?thesis
      using idle by (simp add: triggerNotification_def todaysLogs_def SummaryPending_def Idle_def)
  next
    case False
    from pickRock_in_pool [OF assms(2,3) False assms(4)]
    obtain a where "a \<in> set (activities s)"
      "pickRock rnd (activities s) (lastActivityId s) = Some a" by blast
    then show ?thesis
      using idle False
      by (auto simp: triggerNotification_def todaysLogs_def SummaryPending_def Prompting_def)
  qed
qed

theorem C1_trigger_from_idle_witness:
  "Idle exampleIdle \<and> distinct (map id_activity (activities exampleIdle))
   \<and> (\<exists>a \<in> set (activities exampleIdle).
         triggerNotification (1 / 2) newYear exampleIdle = exampleIdle\<lparr>currentRock := Some a\<rparr>
         \<and> Prompting a (triggerNotification (1 / 2) newYear exampleIdle))"
proof -
  have h1: "Idle exampleIdle" by (simp add: Idle_def exampleIdle_def)
  have h2: "(0::real) \<le> 1 / 2" and h3: "(1::real) / 2 < 1" by simp_all
  have h4: "distinct (map id_activity (activities exampleIdle))"
    by (simp add: exampleIdle_def rockA_def rockB_def)
  have quota: "int (length (filter (\<lambda>l. toISODate (timestamp l) = toISODate newYear
                                        \<and> activityId l \<noteq> ''SUMMARY'') (logs exampleIdle)))
                 < notificationsToday (settings exampleIdle)"
    by (simp add: exampleIdle_def exampleSettings_def)
  have pool: "activities exampleIdle \<noteq> []" by (simp add: exampleIdle_def)
  from C1_trigger_from_idle [OF h1 h2 h3 h4, of newYear] quota pool h1 h4
  show ?thesis by simp
qed

subsection \<open>Respond\<close>

text \<open>
  Claim C4. In Prompting for an activity \<open>a\<close>, Respond appends one log entry with the
  id and the text of \<open>a\<close>, the given answer and the current time, sets \<open>lastActivityId\<close>
  to the id of \<open>a\<close> and leaves the machine Idle; the activities, the settings and the
  earlier log entries stay as they were. In Idle and in SummaryPending, Respond
  returns the state unchanged.
\<close>

theorem C4_respond:
  "(Prompting a s \<longrightarrow>
      handleRockResponse newId now answer s =
        s\<lparr>logs := logs s @ [\<lparr>id_log = newId, activityId = id_activity a,
                              activityText = text_activity a, timestamp = now,
                              completed = answer, isSummary = None\<rparr>],
          lastActivityId := Some (id_activity a),
          currentRock := None\<rparr>
      \<and> Idle (handleRockResponse newId now answer s)
      \<and> activities (handleRockResponse newId now answer s) = activities s
      \<and> settings (handleRockResponse newId now answer s) = settings s
      \<and> length (logs (handleRockResponse newId now answer s)) = Suc (length (logs s))
      \<and> butlast (logs (handleRockResponse newId now answer s)) = logs s)
   \<and> (Idle s \<or> SummaryPending s \<longrightarrow> handleRockResponse newId now answer s = s)"
  by (auto simp: Prompting_def Idle_def SummaryPending_def handleRockResponse_def Let_def)

theorem C4_respond_witness:
  "Prompting rockB examplePrompting
   \<and> logs (handleRockResponse ''log-1'' newYear True examplePrompting) =
        [\<lparr>id_log = ''log-1'', activityId = ''b'', activityText = ''Draw a Picture'',
          timestamp = newYear, completed = True, isSummary = None\<rparr>]
   \<and> lastActivityId (handleRockResponse ''log-1'' newYear True examplePrompting) = Some ''b''
   \<and> Idle (handleRockResponse ''log-1'' newYear True examplePrompting)
   \<and> Idle exampleIdle
   \<and> handleRockResponse ''log-1'' newYear True exampleIdle = exampleIdle"
proof -
  have p: "Prompting rockB examplePrompting"
    by (simp add: Prompting_def examplePrompting_def exampleIdle_def)
  have i: "Idle exampleIdle" by (simp add: Idle_def exampleIdle_def)
  note prompting = C4_respond [of rockB examplePrompting "''log-1''" newYear True]
  from prompting p
  have eq: "handleRockResponse ''log-1'' newYear True examplePrompting =
          examplePrompting\<lparr>logs := logs examplePrompting @
              [\<lparr>id_log = ''log-1'', activityId = id_activity rockB,
                activityText = text_activity rockB, timestamp = newYear,
                completed = True, isSummary = None\<rparr>],
            lastActivityId := Some (id_activity rockB), currentRock := None\<rparr>"
    by blast
  from prompting p
  have idle: "Idle (handleRockResponse ''log-1'' newYear True examplePrompting)"
    by blast
  from C4_respond [of rockB exampleIdle "''log-1''" newYear True] i
  have same: "handleRockResponse ''log-1'' newYear True exampleIdle = exampleIdle"
    by blast
  have "logs (handleRockResponse ''log-1'' newYear True examplePrompting) =
        [\<lparr>id_log = ''log-1'', activityId = ''b'', activityText = ''Draw a Picture'',
          timestamp = newYear, completed = True, isSummary = None\<rparr>]"
    and "lastActivityId (handleRockResponse ''log-1'' newYear True examplePrompting)
          = Some ''b''"
    unfolding eq by (simp_all add: examplePrompting_def exampleIdle_def rockB_def)
  with p i idle same show ?thesis by simp
qed

subsection \<open>Deleting the activity of the live prompt\<close>

text \<open>
  Claim C9. In Prompting for an activity \<open>a\<close>, deleting the activity with the id of \<open>a\<close>
  removes \<open>a\<close> from the pool and changes nothing else: \<open>currentRock\<close>, the logs, the
  settings and \<open>lastActivityId\<close> are as before and the machine is still in Prompting
  for \<open>a\<close>. A Respond after it appends a log entry that carries the text of \<open>a\<close>.
\<close>

theorem C9_delete_live_prompt:
  assumes "Prompting a s"
  shows "a \<notin> set (activities (removeActivity (id_activity a) s))
       \<and> activities (removeActivity (id_activity a) s)
           = filter (\<lambda>b. id_activity b \<noteq> id_activity a) (activities s)
       \<and> currentRock (removeActivity (id_activity a) s) = currentRock s
       \<and> logs (removeActivity (id_activity a) s) = logs s
       \<and> settings (removeActivity (id_activity a) s) = settings s
       \<and> lastActivityId (removeActivity (id_activity a) s) = lastActivityId s
       \<and> Prompting a (removeActivity (id_activity a) s)
       \<and> logs (handleRockResponse newId now answer (removeActivity (id_activity a) s))
           = logs s @ [\<lparr>id_log = newId, activityId = id_activity a,
                         activityText = text_activity a, timestamp = now,
                         completed = answer, isSummary = None\<rparr>]"
  using assms by (simp add: Prompting_def removeActivity_def handleRockResponse_def Let_def)

theorem C9_delete_live_prompt_witness:
  "Prompting rockB examplePrompting
   \<and> activities (removeActivity ''b'' examplePrompting) = [rockA]
   \<and> currentRock (removeActivity ''b'' examplePrompting) = Some rockB
   \<and> logs (handleRockResponse ''log-1'' newYear False (removeActivity ''b'' examplePrompting))
        = [\<lparr>id_log = ''log-1'', activityId = ''b'', activityText = ''Draw a Picture'',
            timestamp = newYear, completed = False, isSummary = None\<rparr>]"
proof -
  have p: "Prompting rockB examplePrompting"
    by (simp add: Prompting_def examplePrompting_def exampleIdle_def)
  have b: "id_activity rockB = ''b''" by (simp add: rockB_def)
  from C9_delete_live_prompt [OF p, of "''log-1''" newYear False]
  show ?thesis
    using p by (simp add: b examplePrompting_def exampleIdle_def rockA_def rockB_def)
qed

subsection \<open>Adding an activity\<close>

lemma trimStart_Nil: "trimStart [] = []"
  by (simp add: trimStart_def)

lemma trimStart_empty_iff: "trimStart str = [] \<longleftrightarrow> (\<forall>c \<in> set str. isWhiteSpace c)"
  by (simp add: trimStart_def dropWhile_eq_Nil_conv)

lemma trim_empty_iff: "trim str = [] \<longleftrightarrow> (\<forall>c \<in> set str. isWhiteSpace c)"
proof
  assume "trim str = []"
  then have "trimStart (rev (trimStart str)) = []" by (simp add: trim_def)
  then have "\<forall>c \<in> set (trimStart str). isWhiteSpace c"
    by (simp add: trimStart_empty_iff)
  moreover have "trimStart str \<noteq> [] \<Longrightarrow> \<not> isWhiteSpace (hd (trimStart str))"
    unfolding trimStart_def by (rule hd_dropWhile)
  ultimately have "trimStart str = []"
    by (cases "trimStart str") auto
  then show "\<forall>c \<in> set str. isWhiteSpace c" by (simp add: trimStart_empty_iff)
next
  assume "\<forall>c \<in> set str. isWhiteSpace c"
  then have "trimStart str = []" by (simp add: trimStart_empty_iff)
  then show "trim str = []" by (simp add: trim_def trimStart_Nil)
qed

text \<open>
  What \<open>trim\<close> returns is the input without a run of white space at each end, and it
  neither starts nor ends with white space.
\<close>

lemma trim_decompose:
  "\<exists>pre post. str = pre @ trim str @ post
     \<and> (\<forall>c \<in> set pre. isWhiteSpace c) \<and> (\<forall>c \<in> set post. isWhiteSpace c)"
proof -
  let ?m = "dropWhile isWhiteSpace str"
  have 1: "str = takeWhile isWhiteSpace str @ ?m" by simp
  have 2: "rev ?m = takeWhile isWhiteSpace (rev ?m) @ dropWhile isWhiteSpace (rev ?m)" by simp
  then have "?m = rev (dropWhile isWhiteSpace (rev ?m)) @ rev (takeWhile isWhiteSpace (rev ?m))"
    by (metis rev_append rev_rev_ident)
  then have "str = takeWhile isWhiteSpace str @ trim str @ rev (takeWhile isWhiteSpace (rev ?m))"
    using 1 by (simp add: trim_def trimStart_def)
  moreover have "\<forall>c \<in> set (takeWhile isWhiteSpace str). isWhiteSpace c"
    by (auto dest: set_takeWhileD)
  moreover have "\<forall>c \<in> set (rev (takeWhile isWhiteSpace (rev ?m))). isWhiteSpace c"
    by (auto dest: set_takeWhileD)
  ultimately show ?thesis by blast
qed

lemma trim_ends:
  assumes "trim str \<noteq> []"
  shows "\<not> isWhiteSpace (hd (trim str)) \<and> \<not> isWhiteSpace (last (trim str))"
proof -
  let ?m = "trimStart str"
  let ?r = "trimStart (rev ?m)"
  have r: "?r \<noteq> []" using assms by (simp add: trim_def)
  then have "\<not> isWhiteSpace (hd ?r)" unfolding trimStart_def by (rule hd_dropWhile)
  then have l: "\<not> isWhiteSpace (last (trim str))" using r by (simp add: trim_def last_rev)
  have m: "?m \<noteq> []"
  proof
    assume "?m = []"
    then have "?r = []" by (simp add: trimStart_Nil)
    with r show False by simp
  qed
  then have hm: "\<not> isWhiteSpace (hd ?m)" unfolding trimStart_def by (rule hd_dropWhile)
  have "\<exists>ys. rev ?m = ys @ ?r" unfolding trimStart_def
    by (metis takeWhile_dropWhile_id)
  then obtain ys where "rev ?m = ys @ ?r" by blast
  then have "?m = rev ?r @ rev ys" by (metis rev_append rev_rev_ident)
  then have "hd ?m = hd (rev ?r)" using r by (metis hd_append2 rev_is_Nil_conv)
  with hm have "\<not> isWhiteSpace (hd (trim str))" by (simp add: trim_def)
  with l show ?thesis by simp
qed

text \<open>
  Claim C10. When the text is empty or all white space, AddActivity leaves the state
  (and the form field) as it is. Otherwise it appends one activity, with the new id,
  the trimmed text and the current time, after the existing activities, empties the
  form field, and changes nothing else of the state.
\<close>

theorem C10_add_activity:
  "addActivity newId now txt s =
     (if \<forall>c \<in> set txt. isWhiteSpace c then (s, txt)
      else (s\<lparr>activities := activities s @
               [\<lparr>id_activity = newId, text_activity = trim txt, createdAt = now\<rparr>]\<rparr>, []))"
  by (simp add: addActivity_def trim_empty_iff Let_def)

theorem C10_add_activity_witness:
  "addActivity ''c'' newYear ''   '' exampleIdle = (exampleIdle, ''   '')
   \<and> addActivity ''c'' newYear [] exampleIdle = (exampleIdle, [])
   \<and> addActivity ''c'' newYear '' Call home  '' exampleIdle =
       (exampleIdle\<lparr>activities := [rockA, rockB,
          \<lparr>id_activity = ''c'', text_activity = ''Call home'', createdAt = newYear\<rparr>]\<rparr>, [])"
proof -
  have t: "trim '' Call home  '' = ''Call home''"
    by (simp add: trim_def trimStart_def isWhiteSpace_def)
  have w: "(\<forall>c \<in> set ''   ''. isWhiteSpace c)"
    "\<not> (\<forall>c \<in> set '' Call home  ''. isWhiteSpace c)"
    by (simp_all add: isWhiteSpace_def)
  from C10_add_activity [of "''c''" newYear "''   ''" exampleIdle]
       C10_add_activity [of "''c''" newYear "[]" exampleIdle]
       C10_add_activity [of "''c''" newYear "'' Call home  ''" exampleIdle] w t
  show ?thesis by (simp add: exampleIdle_def)
qed

subsection \<open>No immediate repeat\<close>

lemma at_index_mem: "at_index xs i = Some x \<Longrightarrow> x \<in> set xs"
  by (auto simp: at_index_def split: if_splits)

lemma pickRock_not_last:
  assumes "lastId \<noteq> []" "1 < length acts" "pickRock rnd acts (Some lastId) = Some a"
  shows "id_activity a \<noteq> lastId"
proof -
  from assms have "at_index (filter (\<lambda>b. id_activity b \<noteq> lastId) acts)
      \<lfloor>rnd * real (length (filter (\<lambda>b. id_activity b \<noteq> lastId) acts))\<rfloor> = Some a"
    by (simp add: pickRock_def truthyString_def Let_def)
  from at_index_mem [OF this] show ?thesis by simp
qed

lemma pickRock_single:
  assumes "0 \<le> rnd" "rnd < 1"
  shows "pickRock rnd [a] lastId = Some a"
proof -
  have "\<lfloor>rnd\<rfloor> = 0" using assms by (simp add: floor_eq_iff)
  then show ?thesis using assms by (simp add: pickRock_def at_index_def)
qed

text \<open>
  Claim C5. The ids of the activities are not empty (they are values of
  \<^verbatim>\<open>crypto.randomUUID()\<close>). From an Idle state below the quota, with a random value in
  \<open>[0, 1)\<close>: when the pool has more than one element and \<open>lastActivityId\<close> is the id of
  an element of the pool, the activity Trigger selects never has that id; when the pool
  is a single activity, that activity is selected, whatever \<open>lastActivityId\<close> is.
\<close>

theorem C5_no_immediate_repeat:
  assumes "Idle s"
    and "int (length (todaysLogs now (logs s))) < notificationsToday (settings s)"
    and "0 \<le> rnd" "rnd < 1"
    and "\<forall>a \<in> set (activities s). id_activity a \<noteq> []"
  shows "(1 < length (activities s) \<and> lastActivityId s = Some lastId
            \<and> lastId \<in> id_activity ` set (activities s) \<longrightarrow>
           (\<forall>a. currentRock (triggerNotification rnd now s) = Some a
                  \<longrightarrow> id_activity a \<noteq> lastId))
       \<and> (\<forall>a. activities s = [a] \<longrightarrow> currentRock (triggerNotification rnd now s) = Some a)"
proof -
  have idle: "currentRock s = None" "\<not> isSummaryPending s"
    using assms(1) by (simp_all add: Idle_def)
  have t: "activities s \<noteq> [] \<Longrightarrow>
      currentRock (triggerNotification rnd now s) = pickRock rnd (activities s) (lastActivityId s)"
    using idle assms(2) by (simp add: triggerNotification_def)
  show ?thesis
  proof (intro conjI impI allI)
    fix a
    assume h: "1 < length (activities s) \<and> lastActivityId s = Some lastId
            \<and> lastId \<in> id_activity ` set (activities s)"
      and c: "currentRock (triggerNotification rnd now s) = Some a"
    from h assms(5) have ne: "lastId \<noteq> []" by auto
    from h have "activities s \<noteq> []" by auto
    from t [OF this] c h have "pickRock rnd (activities s) (Some lastId) = Some a" by simp
    with pickRock_not_last ne h show "id_activity a \<noteq> lastId" by blast
  next
    fix a
    assume "activities s = [a]"
    with t pickRock_single [OF assms(3,4)]
    show "currentRock (triggerNotification rnd now s) = Some a" by simp
  qed
qed

theorem C5_no_immediate_repeat_witness:
  "Idle exampleIdle \<and> lastActivityId exampleIdle = Some ''a''
   \<and> rockA \<in> set (activities exampleIdle) \<and> id_activity rockA = ''a''
   \<and> currentRock (triggerNotification 0 newYear exampleIdle) = Some rockB
   \<and> id_activity rockB \<noteq> ''a''
   \<and> currentRock (triggerNotification (1 / 2) newYear (exampleIdle\<lparr>activities := [rockA]\<rparr>))
       = Some rockA"
proof -
  have i: "Idle exampleIdle" "Idle (exampleIdle\<lparr>activities := [rockA]\<rparr>)"
    by (simp_all add: Idle_def exampleIdle_def)
  have q: "int (length (todaysLogs newYear (logs exampleIdle)))
             < notificationsToday (settings exampleIdle)"
    "int (length (todaysLogs newYear (logs (exampleIdle\<lparr>activities := [rockA]\<rparr>))))
       < notificationsToday (settings (exampleIdle\<lparr>activities := [rockA]\<rparr>))"
    by (simp_all add: exampleIdle_def exampleSettings_def todaysLogs_def)
  have r: "(0::real) \<le> 0" "(0::real) < 1" "(0::real) \<le> 1 / 2" "(1::real) / 2 < 1"
    by simp_all
  have p: "\<forall>a \<in> set (activities exampleIdle). id_activity a \<noteq> []"
    "\<forall>a \<in> set (activities (exampleIdle\<lparr>activities := [rockA]\<rparr>)). id_activity a \<noteq> []"
    by (simp_all add: exampleIdle_def rockA_def rockB_def)
  have sel: "currentRock (triggerNotification 0 newYear exampleIdle) = Some rockB"
    by (simp add: exampleIdle_def exampleSettings_def rockA_def rockB_def
      todaysLogs_def triggerNotification_def pickRock_def truthyString_def at_index_def)
  have l: "1 < length (activities exampleIdle)" "lastActivityId exampleIdle = Some ''a''"
    "rockA \<in> set (activities exampleIdle)" "id_activity rockA = ''a''"
    "''a'' \<in> id_activity ` set (activities exampleIdle)"
    by (simp_all add: exampleIdle_def rockA_def)
  from C5_no_immediate_repeat [OF i(1) q(1) r(1,2) p(1), of "''a''"] l sel
  have "id_activity rockB \<noteq> ''a''" by blast
  moreover from C5_no_immediate_repeat [OF i(2) q(2) r(3,4) p(2), of "''a''"]
  have "currentRock (triggerNotification (1 / 2) newYear (exampleIdle\<lparr>activities := [rockA]\<rparr>))
          = Some rockA"
    by simp
  ultimately show ?thesis using i l sel by simp
qed

subsection \<open>The two flags exclude each other\<close>

lemma exclusive_trigger: "exclusive s \<Longrightarrow> exclusive (triggerNotification rnd now s)"
  by (simp add: exclusive_def triggerNotification_def)

lemma exclusive_respond: "exclusive s \<Longrightarrow> exclusive (handleRockResponse newId now answer s)"
  by (simp add: exclusive_def handleRockResponse_def Let_def split: option.splits)

lemma exclusive_add: "exclusive s \<Longrightarrow> exclusive (fst (addActivity newId now str s))"
  by (simp add: exclusive_def addActivity_def Let_def)

lemma exclusive_visibility:
  "exclusive s \<Longrightarrow> handleVisibilityChange vis rnd now store s = Inr s' \<Longrightarrow> exclusive s'"
  by (auto simp: exclusive_def handleVisibilityChange_def Let_def
           split: if_splits option.splits sum.splits error.splits json.splits)

lemma exclusive_handle:
  assumes "exclusive s" "handle e store s = Inr s'"
  shows "exclusive s'"
proof (cases e)
  case (Trigger rnd now)
  with assms show ?thesis using exclusive_trigger by auto
next
  case (Respond newId now answer)
  with assms show ?thesis using exclusive_respond by auto
next
  case DismissSummary
  with assms show ?thesis by (auto simp: exclusive_def handleSummaryDismiss_def)
next
  case (DeleteActivity i)
  with assms show ?thesis by (auto simp: exclusive_def removeActivity_def)
next
  case (AddActivity newId now str)
  with assms show ?thesis using exclusive_add by auto
next
  case (VisibilityChange vis rnd now)
  with assms show ?thesis using exclusive_visibility by auto
next
  case (ChangeMinimum v)
  with assms show ?thesis by (auto simp: exclusive_def onChangeMinimum_def Let_def)
next
  case (ChangeMaximum v)
  with assms show ?thesis by (auto simp: exclusive_def onChangeMaximum_def Let_def)
next
  case DismissOnboarding
  with assms show ?thesis by (auto simp: exclusive_def dismissOnboarding_def)
qed

lemma exclusive_fire:
  assumes "exclusive (fst c)" "fire e c = Inr c'"
  shows "exclusive (fst c')"
  using assms exclusive_handle
  by (auto simp: fire_def andThen_def split: prod.splits sum.splits)

text \<open>
  No event fails on a store whose settings entry is readable, and the persistence
  effect leaves such a store: every sequence of events runs to a configuration.
\<close>

lemma settingsOfJson_settingsToJson: "settingsOfJson (settingsToJson st) = Some st"
  by (simp add: settingsToJson_def member_def)

lemma persist_settings:
  "persist s store ''bigrocks_settings'' = Some (stringify (settingsToJson (settings s)))"
  by (simp add: persist_def saveData_def Let_def ACTIVITIES_def LOGS_def SETTINGS_def
      STATE_CURRENT_def STATE_LAST_ID_def STATE_SUMMARY_def HAS_SEEN_ONBOARDING_def
      del: stringify.simps)

text \<open>
  On a store that holds a state \<open>s0\<close>, as the persistence effect leaves it, the
  visibility listener reads the settings of \<open>s0\<close>.
\<close>

lemma visible_persist:
  "handleVisibilityChange visible rnd now (persist s0 store) s =
     (if lastGeneratedDate (settings s0) \<noteq> toISODate now
      then Inr (s\<lparr>settings := newSettings rnd (toISODate now) (settings s0),
                  isSummaryPending := False, currentRock := None\<rparr>)
      else Inr s)"
proof -
  have "\<exists>fs. settingsToJson (settings s0) = JObj fs" by (simp add: settingsToJson_def)
  then obtain fs where fs: "settingsToJson (settings s0) = JObj fs" by blast
  have so: "settingsOfJson (JObj fs) = Some (settings s0)"
    unfolding fs [symmetric] by (rule settingsOfJson_settingsToJson)
  have p: "jsonParse (stringify (JObj fs)) = Inr (JObj fs)" by (rule jsonParse_stringify)
  have ne: "stringify (JObj fs) \<noteq> []" by (rule stringify_nonempty)
  show ?thesis
    by (simp add: handleVisibilityChange_def persist_settings fs so p ne Let_def
        del: settingsOfJson.simps stringify.simps)
qed

lemma handle_total: "settingsSaved store \<Longrightarrow> \<exists>s'. handle e store s = Inr s'"
  by (cases e)
     (auto simp: handleVisibilityChange_def settingsSaved_def Let_def
           split: option.splits sum.splits error.splits json.splits)

lemma fire_total:
  assumes "settingsSaved (snd c)"
  shows "\<exists>s' store'. fire e c = Inr (s', store') \<and> settingsSaved store'"
proof -
  obtain s store where c: "c = (s, store)" by (cases c)
  from handle_total [of store e s] assms c obtain s' where "handle e store s = Inr s'"
    by auto
  moreover have "settingsSaved (persist s' store)"
    by (simp add: settingsSaved_def persist_settings jsonParse_stringify
        settingsOfJson_settingsToJson)
  ultimately show ?thesis using c by (auto simp: fire_def andThen_def)
qed

lemma run_total: "settingsSaved (snd c) \<Longrightarrow> \<exists>c'. run es c = Inr c'"
proof (induction es arbitrary: c)
  case Nil
  then show ?case by simp
next
  case (Cons e es)
  from fire_total [OF Cons.prems, of e] obtain s' store' where
    1: "fire e c = Inr (s', store')" and 2: "settingsSaved store'" by blast
  from Cons.IH [of "(s', store')"] 2 obtain c' where "run es (s', store') = Inr c'" by auto
  with 1 show ?case by (auto simp: andThen_def)
qed

text \<open>
  Claim C3. From a configuration whose state has not both \<open>currentRock\<close> and
  \<open>isSummaryPending\<close> truthy, every sequence of events (Trigger, Respond,
  DismissSummary, DeleteActivity, AddActivity, the rollover check of the visibility
  listener, the settings inputs and DismissOnboarding) ends in a state that has not
  both truthy.
\<close>

theorem C3_never_both:
  assumes "exclusive (fst c)" "run es c = Inr c'"
  shows "exclusive (fst c')"
  using assms
proof (induction es arbitrary: c)
  case Nil
  then show ?case by simp
next
  case (Cons e es)
  from Cons.prems(2) obtain c1 where 1: "fire e c = Inr c1" and 2: "run es c1 = Inr c'"
    by (auto simp: andThen_def split: sum.splits)
  from exclusive_fire [OF Cons.prems(1) 1] have "exclusive (fst c1)" .
  from Cons.IH [OF this 2] show ?case .
qed

theorem C3_never_both_witness:
  "exclusive (fst (exampleIdle, Map.empty :: storage))
   \<and> (\<exists>store'. run [Trigger (1 / 2) newYear, Respond ''log-1'' newYear True, DismissSummary,
               VisibilityChange visible 0 nextDay, Trigger 0 nextDay]
          (exampleIdle, Map.empty)
        = Inr (exampleIdle\<lparr>logs := [\<lparr>id_log = ''log-1'', activityId = ''b'',
                  activityText = ''Draw a Picture'', timestamp = newYear, completed = True,
                  isSummary = None\<rparr>],
                settings := exampleSettings\<lparr>notificationsToday := 3,
                  lastGeneratedDate := ''2024-01-02''\<rparr>,
                lastActivityId := Some ''b'', currentRock := Some rockA\<rparr>, store'))
   \<and> exclusive (exampleIdle\<lparr>logs := [\<lparr>id_log = ''log-1'', activityId = ''b'',
                  activityText = ''Draw a Picture'', timestamp = newYear, completed = True,
                  isSummary = None\<rparr>],
                settings := exampleSettings\<lparr>notificationsToday := 3,
                  lastGeneratedDate := ''2024-01-02''\<rparr>,
                lastActivityId := Some ''b'', currentRock := Some rockA\<rparr>)"
proof -
  let ?es = "[Trigger (1 / 2) newYear, Respond ''log-1'' newYear True, DismissSummary,
               VisibilityChange visible 0 nextDay, Trigger 0 nextDay]"
  let ?final = "exampleIdle\<lparr>logs := [\<lparr>id_log = ''log-1'', activityId = ''b'',
                  activityText = ''Draw a Picture'', timestamp = newYear, completed = True,
                  isSummary = None\<rparr>],
                settings := exampleSettings\<lparr>notificationsToday := 3,
                  lastGeneratedDate := ''2024-01-02''\<rparr>,
                lastActivityId := Some ''b'', currentRock := Some rockA\<rparr>"
  have d: "toISODate nextDay = ''2024-01-02''" "toISODate newYear = ''2024-01-01''"
    by (simp_all add: nextDay_def newYear_def) code_simp+
  have start: "exclusive (fst (exampleIdle, Map.empty :: storage))"
    by (simp add: exclusive_def exampleIdle_def)
  have "settingsSaved (snd (exampleIdle, Map.empty :: storage))"
    by (simp add: settingsSaved_def)
  from run_total [OF this, of ?es] obtain s' store' where r: "run ?es (exampleIdle, Map.empty) = Inr (s', store')"
    by fastforce
  have "map_sum id fst (run ?es (exampleIdle, Map.empty)) = Inr ?final"
    by (simp add: fire_def andThen_def visible_persist
        triggerNotification_def handleRockResponse_def
        handleSummaryDismiss_def pickRock_def at_index_def truthyString_def todaysLogs_def
        newSettings_def newCount_def d
        exampleIdle_def exampleSettings_def rockA_def rockB_def Let_def)
  with r have s': "s' = ?final" by simp
  from C3_never_both [OF start r] have "exclusive s'" by simp
  with r s' start show ?thesis by blast
qed

section \<open>Persistence\<close>

lemma activityOfJson_activityToJson: "activityOfJson (activityToJson a) = Some a"
  by (simp add: activityToJson_def member_def)

lemma logOfJson_logToJson: "logOfJson (logToJson l) = Some l"
  by (cases "isSummary l") (simp_all add: logToJson_def member_def)

lemma those_map_Some:
  "(\<And>x. f (g x) = Some x) \<Longrightarrow> those (map (f \<circ> g) xs) = Some xs"
  by (induction xs) simp_all

lemma rockOfJson_rockToJson: "rockOfJson (rockToJson r) = Some r"
  by (cases r) (simp_all add: rockToJson_def activityToJson_def member_def)

text \<open>An entry that \<open>saveData\<close> wrote is read as the value it was written from.\<close>

lemma parseOr_stringify: "parseOr (Some (stringify j)) dflt = Inr j"
  by (simp add: parseOr_def jsonParse_stringify stringify_nonempty del: stringify.simps)

lemma loadInitialData_saveData:
  "loadInitialData now (saveData acts lgs st rock lastId pending seen store) =
     Inr \<lparr>activities = acts, logs = lgs, settings = st, currentRock = rock,
          lastActivityId = (if lastId = Some [] then None else lastId),
          isSummaryPending = pending, hasSeenOnboarding = seen\<rparr>"
proof -
  let ?store = "saveData acts lgs st rock lastId pending seen store"
  have keys: "?store ACTIVITIES = Some (stringify (JArr (map activityToJson acts)))"
    "?store LOGS = Some (stringify (JArr (map logToJson lgs)))"
    "?store SETTINGS = Some (stringify (settingsToJson st))"
    "?store STATE_CURRENT = Some (stringify (rockToJson rock))"
    "?store STATE_SUMMARY = Some (stringify (JBool pending))"
    "?store HAS_SEEN_ONBOARDING = Some (stringify (JBool seen))"
    by (simp_all add: saveData_def Let_def ACTIVITIES_def LOGS_def SETTINGS_def
      STATE_CURRENT_def STATE_LAST_ID_def STATE_SUMMARY_def HAS_SEEN_ONBOARDING_def
      del: stringify.simps)
  have "?store STATE_LAST_ID = (if truthyString lastId then Some (the lastId) else None)"
    by (simp add: saveData_def Let_def ACTIVITIES_def LOGS_def SETTINGS_def
      STATE_CURRENT_def STATE_LAST_ID_def STATE_SUMMARY_def HAS_SEEN_ONBOARDING_def
      del: stringify.simps)
  then have last: "?store STATE_LAST_ID = (if lastId = Some [] then None else lastId)"
    by (cases lastId) (simp_all add: truthyString_def)
  show ?thesis
    unfolding loadInitialData_def keys last parseOr_stringify
    by (simp add: castTo_def andThen_def
        those_map_Some activityOfJson_activityToJson logOfJson_logToJson
        settingsOfJson_settingsToJson rockOfJson_rockToJson)
qed

text \<open>
  A session that starts on the store an exclusive state was written to starts in an
  exclusive state.
\<close>

lemma exclusive_initialize:
  assumes "exclusive s" "initialize rnd now (persist s store) = Inr s'"
  shows "exclusive s'"
proof -
  have "loadInitialData now (persist s store) =
      Inr (s\<lparr>lastActivityId := (if lastActivityId s = Some [] then None else lastActivityId s)\<rparr>)"
    by (simp add: persist_def loadInitialData_saveData)
  with assms show ?thesis
    by (auto simp: initialize_def andThen_def exclusive_def Let_def split: if_splits)
qed

subsection \<open>No id is the empty string\<close>

text \<open>
  The first session starts on the empty store, in a state without activities. Every
  event keeps \<open>properIds\<close>, and so does a restart on the store the state was written to,
  which reads that state back.
\<close>

lemma pickRock_mem: "pickRock rnd acts lastId = Some a \<Longrightarrow> a \<in> set acts"
  by (auto simp: pickRock_def Let_def dest!: at_index_mem split: if_splits)

lemma properIds_trigger: "properIds s \<Longrightarrow> properIds (triggerNotification rnd now s)"
  by (auto simp: properIds_def triggerNotification_def dest: pickRock_mem)

lemma properIds_respond: "properIds s \<Longrightarrow> properIds (handleRockResponse newId now answer s)"
  by (auto simp: properIds_def handleRockResponse_def Let_def split: option.splits)

lemma properIds_add:
  "properIds s \<Longrightarrow> newId \<noteq> [] \<Longrightarrow> properIds (fst (addActivity newId now str s))"
  by (auto simp: properIds_def addActivity_def Let_def)

lemma properIds_visibility:
  "properIds s \<Longrightarrow> handleVisibilityChange vis rnd now store s = Inr s' \<Longrightarrow> properIds s'"
  by (auto simp: properIds_def handleVisibilityChange_def Let_def
           split: if_splits option.splits sum.splits error.splits json.splits)

lemma properIds_handle:
  assumes "properIds s" "freshId e" "handle e store s = Inr s'"
  shows "properIds s'"
proof (cases e)
  case (Trigger rnd now)
  with assms show ?thesis using properIds_trigger by auto
next
  case (Respond newId now answer)
  with assms show ?thesis using properIds_respond by auto
next
  case DismissSummary
  with assms show ?thesis by (auto simp: properIds_def handleSummaryDismiss_def)
next
  case (DeleteActivity i)
  with assms show ?thesis by (auto simp: properIds_def removeActivity_def)
next
  case (AddActivity newId now str)
  with assms show ?thesis using properIds_add by auto
next
  case (VisibilityChange vis rnd now)
  with assms show ?thesis using properIds_visibility by auto
next
  case (ChangeMinimum v)
  with assms show ?thesis by (auto simp: properIds_def onChangeMinimum_def Let_def)
next
  case (ChangeMaximum v)
  with assms show ?thesis by (auto simp: properIds_def onChangeMaximum_def Let_def)
next
  case DismissOnboarding
  with assms show ?thesis by (auto simp: properIds_def dismissOnboarding_def)
qed

lemma properIds_run:
  assumes "properIds (fst c)" "list_all freshId es" "run es c = Inr c'"
  shows "properIds (fst c')"
  using assms
proof (induction es arbitrary: c)
  case Nil
  then show ?case by simp
next
  case (Cons e es)
  from Cons.prems(3) obtain c1 where 1: "fire e c = Inr c1" and 2: "run es c1 = Inr c'"
    by (auto simp: andThen_def split: sum.splits)
  from 1 obtain s1 where "handle e (snd c) (fst c) = Inr s1" "fst c1 = s1"
    by (auto simp: fire_def andThen_def split: prod.splits sum.splits)
  with properIds_handle [OF Cons.prems(1)] Cons.prems(2) have "properIds (fst c1)" by auto
  from Cons.IH [OF this _ 2] Cons.prems(2) show ?case by simp
qed

lemma load_persist: "properIds s \<Longrightarrow> loadInitialData now (persist s store) = Inr s"
  by (simp add: persist_def loadInitialData_saveData properIds_def)

lemma properIds_restart:
  assumes "properIds s" "initialize rnd now (persist s store) = Inr s'"
  shows "properIds s'"
  using assms
  by (auto simp: initialize_def andThen_def load_persist properIds_def Let_def split: if_splits)

lemma load_empty:
  "loadInitialData now Map.empty =
     Inr \<lparr>activities = [], logs = [], settings = defaultSettings now, currentRock = None,
          lastActivityId = None, isSummaryPending = False, hasSeenOnboarding = False\<rparr>"
proof -
  have e: "jsonParse ''[]'' = Inr (JArr [])" "jsonParse ''null'' = Inr JNull"
    "jsonParse ''false'' = Inr (JBool False)"
    using jsonParse_stringify [of "JArr []"] jsonParse_stringify [of JNull]
      jsonParse_stringify [of "JBool False"] by simp_all
  show ?thesis
    unfolding loadInitialData_def parseOr_def
    by (simp add: e jsonParse_stringify andThen_def castTo_def settingsOfJson_settingsToJson
        del: stringify.simps)
qed

lemma first_start:
  "\<exists>s. initialize rnd now Map.empty = Inr s \<and> properIds s \<and> exclusive s \<and> activities s = []"
  by (simp add: initialize_def load_empty andThen_def properIds_def exclusive_def Let_def)

subsection \<open>The round trip\<close>



section \<open>Day rollover\<close>



lemma hidden_nothing: "handleVisibilityChange hidden rnd now store s = Inr s"
  by (simp add: handleVisibilityChange_def)



section \<open>Settings inputs\<close>

text \<open>
  Both handlers keep \<open>minNotifications \<le> maxNotifications\<close>, and the maximum's handler
  leaves the minimum alone. The minimum's handler keeps the minimum at 1 or above on
  every input that \<^verbatim>\<open>parseInt\<close> reads as \<^verbatim>\<open>NaN\<close> or as a number that is not negative.
\<close>

lemma onChangeMinimum_le_max:
  assumes "minNotifications (settings s) \<le> maxNotifications (settings s)"
  shows "minNotifications (settings (onChangeMinimum v s))
           \<le> maxNotifications (settings (onChangeMinimum v s))
       \<and> maxNotifications (settings (onChangeMinimum v s)) = maxNotifications (settings s)"
  by (simp add: onChangeMinimum_def Let_def)

lemma onChangeMaximum_valid:
  assumes "1 \<le> minNotifications (settings s)"
  shows "1 \<le> minNotifications (settings (onChangeMaximum v s))
       \<and> minNotifications (settings (onChangeMaximum v s))
           \<le> maxNotifications (settings (onChangeMaximum v s))"
  using assms by (simp add: onChangeMaximum_def Let_def)

lemma onChangeMinimum_ge_1:
  assumes "1 \<le> maxNotifications (settings s)"
    and "parseInt v = None \<or> (\<exists>n\<ge>0. parseInt v = Some n)"
  shows "1 \<le> minNotifications (settings (onChangeMinimum v s))"
  using assms by (auto simp: onChangeMinimum_def Let_def numberOr_def)

lemma parseInt_minus_5: "parseInt ''-5'' = Some (- 5)"
  by code_simp

text \<open>
  Claim C6 fails on the minimum's field: from the settings 3 and 8, the input
  \<^verbatim>\<open>-5\<close> sets \<open>minNotifications\<close> to \<open>-5\<close>. Only \<^verbatim>\<open>NaN\<close> and zero are replaced by 1.
\<close>

theorem C6_negative_minimum:
  "1 \<le> minNotifications (settings exampleIdle)
   \<and> minNotifications (settings exampleIdle) \<le> maxNotifications (settings exampleIdle)
   \<and> minNotifications (settings (onChangeMinimum ''-5'' exampleIdle)) = - 5
   \<and> maxNotifications (settings (onChangeMinimum ''-5'' exampleIdle)) = 8"
  by (simp add: onChangeMinimum_def parseInt_minus_5 numberOr_def exampleIdle_def
      exampleSettings_def)

section \<open>Statistics\<close>

subsection \<open>The rounding error of a double\<close>


lemma pow2_powi: "pow2 e = 2 powi e"
  by (simp add: pow2_def power_int_def inverse_eq_divide power_one_over)

lemma pow2_pos: "0 < pow2 e"
  by (simp add: pow2_powi)

lemma ilog2_lower:
  assumes "0 < x"
  shows "pow2 (ilog2 x) \<le> x"
proof -
  obtain p q where pq: "quotient_of x = (p, q)" by (cases "quotient_of x")
  then have q: "0 < q" by (rule quotient_of_denom_pos)
  have x: "x = of_int p / of_int q" using pq by (rule quotient_of_div)
  with assms q have p: "0 < p" by (simp add: zero_less_divide_iff)
  let ?e0 = "bitlen p - bitlen q"
  show ?thesis
  proof (cases "pow2 ?e0 \<le> x")
    case True
    then show ?thesis by (simp add: ilog2_def pq Let_def)
  next
    case False
    then have e: "ilog2 x = ?e0 - 1" by (simp add: ilog2_def pq Let_def)
    from bitlen_bounds [OF p] have lo: "2 ^ nat (bitlen p - 1) \<le> p" by simp
    from bitlen_bounds [OF q] have hi: "q < 2 ^ nat (bitlen q)" by simp
    have bp: "1 \<le> bitlen p" using p bitlen_eq_zero_iff [of p] bitlen_nonneg [of p] by linarith
    have bq: "0 \<le> bitlen q" by (rule bitlen_nonneg)
    have "(2::rat) powi (bitlen p - 1) = 2 ^ nat (bitlen p - 1)"
      using bp by (simp add: power_int_def)
    also have "\<dots> \<le> of_int p" using lo by (metis of_int_le_iff of_int_numeral of_int_power)
    finally have 1: "(2::rat) powi (bitlen p - 1) \<le> of_int p" .
    have "(of_int q :: rat) \<le> 2 ^ nat (bitlen q)"
      using hi by (metis less_imp_le of_int_le_iff of_int_numeral of_int_power)
    also have "\<dots> = 2 powi (bitlen q)" using bq by (simp add: power_int_def)
    finally have 2: "(of_int q :: rat) \<le> 2 powi (bitlen q)" .
    have "?e0 - 1 = (bitlen p - 1) - bitlen q" by simp
    then have "pow2 (?e0 - 1) = 2 powi ((bitlen p - 1) - bitlen q)"
      by (simp only: pow2_powi)
    also have "\<dots> = 2 powi (bitlen p - 1) / 2 powi (bitlen q)"
      by (rule power_int_diff) simp
    finally have "pow2 (?e0 - 1) = 2 powi (bitlen p - 1) / 2 powi (bitlen q)" .
    also have "\<dots> \<le> of_int p / of_int q"
      using 1 2 q p by (intro frac_le) simp_all
    finally show ?thesis using e x by simp
  qed
qed

lemma ilog2_upper:
  assumes "0 < x"
  shows "x < pow2 (ilog2 x + 1)"
proof -
  obtain p q where pq: "quotient_of x = (p, q)" by (cases "quotient_of x")
  then have q: "0 < q" by (rule quotient_of_denom_pos)
  have x: "x = of_int p / of_int q" using pq by (rule quotient_of_div)
  with assms q have p: "0 < p" by (simp add: zero_less_divide_iff)
  let ?e0 = "bitlen p - bitlen q"
  show ?thesis
  proof (cases "pow2 ?e0 \<le> x")
    case True
    then have e: "ilog2 x = ?e0" by (simp add: ilog2_def pq Let_def)
    from bitlen_bounds [OF p] have hi: "p < 2 ^ nat (bitlen p)" by simp
    from bitlen_bounds [OF q] have lo: "2 ^ nat (bitlen q - 1) \<le> q" by simp
    have bq: "1 \<le> bitlen q" using q bitlen_eq_zero_iff [of q] bitlen_nonneg [of q] by linarith
    have bp: "0 \<le> bitlen p" by (rule bitlen_nonneg)
    have "(of_int p :: rat) < 2 ^ nat (bitlen p)"
      using hi by (metis of_int_less_iff of_int_numeral of_int_power)
    also have "\<dots> = 2 powi (bitlen p)" using bp by (simp add: power_int_def)
    finally have 1: "(of_int p :: rat) < 2 powi (bitlen p)" .
    have "(2::rat) powi (bitlen q - 1) = 2 ^ nat (bitlen q - 1)"
      using bq by (simp add: power_int_def)
    also have "\<dots> \<le> of_int q" using lo by (metis of_int_le_iff of_int_numeral of_int_power)
    finally have 2: "(2::rat) powi (bitlen q - 1) \<le> of_int q" .
    have 3: "(0::rat) < 2 powi (bitlen q - 1)" by simp
    have "(of_int p :: rat) / of_int q < 2 powi (bitlen p) / 2 powi (bitlen q - 1)"
      using 1 2 3 p q by (intro frac_less) simp_all
    also have "\<dots> = 2 powi (bitlen p - (bitlen q - 1))"
      by (rule power_int_diff [symmetric]) simp
    also have "bitlen p - (bitlen q - 1) = ?e0 + 1" by simp
    finally show ?thesis using e x by (simp add: pow2_powi)
  next
    case False
    then have "ilog2 x = ?e0 - 1" by (simp add: ilog2_def pq Let_def)
    with False show ?thesis by simp
  qed
qed

lemma roundHalfEven_err: "\<bar>of_int (roundHalfEven y) - y\<bar> \<le> 1 / 2"
proof -
  define f where "f = \<lfloor>y\<rfloor>"
  define r where "r = y - of_int f"
  have r: "0 \<le> r" "r < 1" unfolding r_def f_def by linarith+
  have y: "y = of_int f + r" by (simp add: r_def)
  have rh: "roundHalfEven y =
      (if r < 1 / 2 then f else if 1 / 2 < r then f + 1 else if even f then f else f + 1)"
    by (simp only: roundHalfEven_def Let_def r_def f_def)
  consider "r < 1 / 2" | "1 / 2 < r" | "r = 1 / 2" by linarith
  then show ?thesis
  proof cases
    case 1
    then have "roundHalfEven y = f" by (simp only: rh if_True)
    then have "of_int (roundHalfEven y) - y = - r" by (simp add: r_def)
    then show ?thesis using r 1 by simp
  next
    case 2
    then have "roundHalfEven y = f + 1" by (simp add: rh)
    then have "of_int (roundHalfEven y) - y = 1 - r" by (simp add: r_def)
    then show ?thesis using r 2 by simp
  next
    case 3
    then have "roundHalfEven y = f \<or> roundHalfEven y = f + 1" by (simp add: rh)
    then have "of_int (roundHalfEven y) - y = - r \<or> of_int (roundHalfEven y) - y = 1 - r"
      by (auto simp: r_def)
    then show ?thesis using 3 by auto
  qed
qed

lemma binary64_err:
  assumes "0 < x"
  shows "\<bar>binary64 x - x\<bar> \<le> x / 2 ^ 53"
proof -
  define u where "u = pow2 (ilog2 x - 52)"
  have u: "0 < u" by (simp add: u_def pow2_pos)
  have b: "binary64 x = of_int (roundHalfEven (x / u)) * u"
    using assms by (simp add: binary64_def u_def Let_def)
  have "binary64 x - x = (of_int (roundHalfEven (x / u)) - x / u) * u"
    using u by (simp add: b field_simps)
  then have "\<bar>binary64 x - x\<bar> = \<bar>of_int (roundHalfEven (x / u)) - x / u\<bar> * u"
    using u by (simp only: abs_mult abs_of_pos)
  also have "\<dots> \<le> (1 / 2) * u"
    using roundHalfEven_err [of "x / u"] u by (intro mult_right_mono) simp_all
  also have "\<dots> = pow2 (ilog2 x) / 2 ^ 53"
    by (simp add: u_def pow2_powi power_int_diff)
  also have "\<dots> \<le> x / 2 ^ 53"
    using ilog2_lower [OF assms] by (simp add: divide_right_mono)
  finally show ?thesis .
qed

text \<open>
  The double product \<^verbatim>\<open>(completed / total) * 100\<close> is within \<open>2^-45\<close> of the exact
  value, so \<^verbatim>\<open>Math.round\<close> of it is the rounding of the exact value unless that lies
  within \<open>2^-45\<close> of a half.
\<close>


lemma floor_near:
  fixes z z' :: rat
  assumes "of_int k + d \<le> z" "z \<le> of_int k + 1 - d" "\<bar>z' - z\<bar> < d"
  shows "\<lfloor>z'\<rfloor> = k"
proof -
  have "of_int k \<le> z'" "z' < of_int k + 1" using assms by linarith+
  then show ?thesis by (simp add: floor_unique)
qed

lemma percentage_error:
  fixes x :: rat
  assumes "0 < x" "x \<le> 1"
  shows "\<bar>fmul (binary64 x) 100 - 100 * x\<bar> < 1 / 2 ^ 45"
proof -
  define e :: rat where "e = 1 / 2 ^ 53"
  define q where "q = binary64 x"
  define p where "p = fmul q 100"
  have e: "0 < e" "e < 1" by (simp_all add: e_def)
  have "\<bar>q - x\<bar> \<le> x / 2 ^ 53" unfolding q_def using assms(1) by (rule binary64_err)
  then have eq: "\<bar>q - x\<bar> \<le> x * e" by (simp add: e_def)
  have xe: "x * e \<le> e" using assms(2) e(1) by (simp add: mult_left_le_one_le)
  have "x * e < x * 1" using assms(1) e(2) by (simp only: mult_strict_left_mono)
  then have "x * e < x" by simp
  with eq have qpos: "0 < q" by linarith
  have qle: "q \<le> 1 + e" using eq xe assms(2) by linarith
  have "0 < q * 100" using qpos by simp
  from binary64_err [OF this] have "\<bar>p - q * 100\<bar> \<le> q * 100 / 2 ^ 53"
    by (simp add: fmul_def p_def)
  then have ep: "\<bar>p - q * 100\<bar> \<le> 100 * (q * e)" by (simp add: e_def)
  have "q * e \<le> (1 + e) * e" using qle e(1) by (simp only: mult_right_mono less_imp_le)
  then have "100 * (q * e) \<le> 100 * ((1 + e) * e)"
    by (simp only: mult_le_cancel_left_pos zero_less_numeral)
  with ep have ep': "\<bar>p - q * 100\<bar> \<le> 100 * ((1 + e) * e)" by (rule order_trans)
  have "p - 100 * x = (p - q * 100) + 100 * (q - x)"
    by (simp add: algebra_simps)
  then have "\<bar>p - 100 * x\<bar> \<le> \<bar>p - q * 100\<bar> + \<bar>100 * (q - x)\<bar>"
    by (simp only: abs_triangle_ineq)
  also have "\<dots> = \<bar>p - q * 100\<bar> + 100 * \<bar>q - x\<bar>"
    by (simp only: abs_mult abs_numeral)
  also have "\<dots> \<le> 100 * ((1 + e) * e) + 100 * e"
  proof (rule add_mono)
    show "\<bar>p - q * 100\<bar> \<le> 100 * ((1 + e) * e)" by (rule ep')
    from eq xe have "\<bar>q - x\<bar> \<le> e" by (rule order_trans)
    then show "100 * \<bar>q - x\<bar> \<le> 100 * e" by (simp only: mult_le_cancel_left_pos zero_less_numeral)
  qed
  also have "\<dots> < 1 / 2 ^ 45" by (simp add: e_def)
  finally show ?thesis by (simp only: p_def q_def)
qed


lemma percentage_exact:
  assumes "0 < t" "c \<le> t" "t < 2 ^ 32" "(200 * c + t) mod (2 * t) \<noteq> 0"
  shows "mathRound (fmul (fdiv (of_nat c) (of_nat t)) 100) = int ((200 * c + t) div (2 * t))"
proof (cases "c = 0")
  case True
  then show ?thesis using assms(1)
    by (simp add: fdiv_def fmul_def binary64_def mathRound_def floor_eq_iff)
next
  case False
  define x :: rat where "x = of_nat c / of_nat t"
  define k where "k = (200 * c + t) div (2 * t)"
  define r where "r = (200 * c + t) mod (2 * t)"
  define d :: rat where "d = 1 / (2 * of_nat t)"
  have x: "0 < x" "x \<le> 1" using False assms(1,2) by (simp_all add: x_def)
  have kr: "200 * c + t = k * (2 * t) + r"
    unfolding k_def r_def by (rule div_mult_mod_eq [symmetric])
  have r1: "1 \<le> r" using assms(4) by (simp add: r_def)
  have "r < 2 * t" unfolding r_def using assms(1) by simp
  then have r2: "r + 1 \<le> 2 * t" by simp
  have tpos: "(0::rat) < 2 * of_nat t" using assms(1) by simp
  have dpos: "0 < d" using tpos by (simp add: d_def)
  have td: "2 * of_nat t * d = 1" using assms(1) by (simp add: d_def)
  have z: "100 * x + 1 / 2 = of_nat k + of_nat r * d"
  proof -
    have "100 * x + 1 / 2 = (200 * of_nat c + of_nat t) * d"
      using assms(1) by (simp add: x_def d_def field_simps)
    also have "200 * of_nat c + of_nat t = (of_nat (200 * c + t) :: rat)" by simp
    also have "\<dots> = of_nat (k * (2 * t) + r)" by (simp only: kr)
    also have "\<dots> = of_nat k * (2 * of_nat t) + of_nat r" by simp
    also have "\<dots> * d = of_nat k * (2 * of_nat t * d) + of_nat r * d"
      by (simp add: algebra_simps)
    also have "\<dots> = of_nat k + of_nat r * d" by (simp only: td mult_1_right)
    finally show ?thesis .
  qed
  have lo: "of_int (int k) + d \<le> 100 * x + 1 / 2"
  proof -
    have "(1::rat) \<le> of_nat r" using r1 by simp
    then have "1 * d \<le> of_nat r * d" using dpos by (simp only: mult_right_mono less_imp_le)
    then show ?thesis by (simp add: z)
  qed
  have hi: "100 * x + 1 / 2 \<le> of_int (int k) + 1 - d"
  proof -
    have "(of_nat (r + 1) :: rat) \<le> of_nat (2 * t)" using r2 by (simp only: of_nat_le_iff)
    then have "(of_nat r :: rat) + 1 \<le> 2 * of_nat t" by simp
    then have "(of_nat r + 1) * d \<le> 2 * of_nat t * d"
      using dpos by (simp only: mult_right_mono less_imp_le)
    then have "(of_nat r + 1) * d \<le> 1" by (simp only: td)
    then have "of_nat r * d + d \<le> 1" by (simp add: algebra_simps)
    then show ?thesis by (simp add: z)
  qed
  have "(of_nat t :: rat) < of_nat (2 ^ 32)" using assms(3) by (simp only: of_nat_less_iff)
  then have "2 * (of_nat t :: rat) < 2 ^ 45" by simp
  then have "1 / 2 ^ 45 < d" using tpos unfolding d_def
    by (intro divide_strict_left_mono) simp_all
  with percentage_error [OF x]
  have "\<bar>fmul (binary64 x) 100 - 100 * x\<bar> < d" by (rule less_trans)
  then have "\<bar>(fmul (binary64 x) 100 + 1 / 2) - (100 * x + 1 / 2)\<bar> < d" by simp
  from floor_near [OF lo hi this]
  show ?thesis by (simp add: mathRound_def fdiv_def x_def k_def)
qed

lemma exact_round:
  assumes "0 < t"
  shows "mathRound (100 * of_nat c / of_nat t) = int ((200 * c + t) div (2 * t))"
proof -
  have "100 * of_nat c / of_nat t + 1 / 2 = (of_nat (200 * c + t) :: rat) / of_nat (2 * t)"
    using assms by (simp add: field_simps)
  then show ?thesis by (simp only: mathRound_def floor_divide_of_nat_eq)
qed

lemma tie_frac:
  assumes "0 < t" "(200 * c + t) mod (2 * t) = 0"
  shows "frac (100 * of_nat c / of_nat t :: rat) = 1 / 2"
proof -
  from assms(2) obtain k where k: "200 * c + t = 2 * t * k" by (auto simp: mod_eq_0_iff_dvd)
  have "k \<noteq> 0" using k assms(1) by (cases k) auto
  have "(of_nat (200 * c + t) :: rat) = of_nat (2 * t * k)" by (simp only: k)
  then have "200 * (of_nat c :: rat) + of_nat t = 2 * of_nat t * of_nat k" by simp
  then have "100 * (of_nat c :: rat) / of_nat t = of_nat k - 1 / 2"
    using assms(1) by (simp add: field_simps)
  then have "100 * (of_nat c :: rat) / of_nat t - 1 / 2 = of_int (int k - 1)" by simp
  then have "100 * (of_nat c :: rat) / of_nat t - 1 / 2 \<in> \<int>" by (simp only: Ints_of_int)
  then show ?thesis unfolding frac_unique_iff by simp
qed

lemma percentage_round_half_up:
  assumes "0 < t" "c \<le> t" "t < 2 ^ 32" "frac (100 * of_nat c / of_nat t :: rat) \<noteq> 1 / 2"
  shows "mathRound (fmul (fdiv (of_nat c) (of_nat t)) 100) = mathRound (100 * of_nat c / of_nat t)"
proof -
  from tie_frac [OF assms(1), of c] assms(4) have "(200 * c + t) mod (2 * t) \<noteq> 0" by blast
  from percentage_exact [OF assms(1,2,3) this] exact_round [OF assms(1), of c]
  show ?thesis by simp
qed

lemma filteredLogs_eq:
  "filteredLogs ls startDate =
     filter (\<lambda>l. isSummary l \<noteq> Some True \<and> activityId l \<noteq> ''SUMMARY''
                 \<and> (case startDate of None \<Rightarrow> True | Some w \<Rightarrow> w < timestamp l)) ls"
  unfolding filteredLogs_def by (rule filter_cong) (auto split: option.splits)

text \<open>
  What \<open>stats\<close> returns. For a log list of fewer than \<open>2^32\<close> entries (the bound of an
  array's length), it counts the entries that are not summaries (\<open>isSummary\<close> not true
  and \<open>activityId\<close> not SUMMARY), all of them when the window start is null and those
  with a timestamp strictly greater otherwise. The percentage is 0 when the total is 0,
  and otherwise \<^verbatim>\<open>Math.round\<close> of the double product, which is the round-half-up of
  \<open>100 * completed / total\<close> whenever that value is not exactly half way between two
  integers.
\<close>

lemma stats_counts:
  fixes ls :: "ActivityLog list" and startDate :: "int option"
  defines "kept \<equiv> filter (\<lambda>l. isSummary l \<noteq> Some True \<and> activityId l \<noteq> ''SUMMARY''
                 \<and> (case startDate of None \<Rightarrow> True | Some w \<Rightarrow> w < timestamp l)) ls"
  defines "c \<equiv> length (filter completed kept)"
  defines "t \<equiv> length kept"
  assumes "length ls < 2 ^ 32"
  shows "stats ls startDate =
           (c, t, if t = 0 then 0 else mathRound (fmul (fdiv (of_nat c) (of_nat t)) 100))
         \<and> (t \<noteq> 0 \<and> frac (100 * of_nat c / of_nat t :: rat) \<noteq> 1 / 2
              \<longrightarrow> mathRound (fmul (fdiv (of_nat c) (of_nat t)) 100)
                    = mathRound (100 * of_nat c / of_nat t))"
proof -
  have ct: "c \<le> t" unfolding c_def t_def by (rule length_filter_le)
  have "t \<le> length ls" unfolding t_def kept_def by (rule length_filter_le)
  with assms(4) have t32: "t < 2 ^ 32" by simp
  have s: "stats ls startDate =
      (c, t, if t = 0 then 0 else mathRound (fmul (fdiv (of_nat c) (of_nat t)) 100))"
    by (simp add: stats_def Let_def filteredLogs_eq c_def t_def kept_def)
  have half: "t \<noteq> 0 \<Longrightarrow> frac (100 * of_nat c / of_nat t :: rat) \<noteq> 1 / 2 \<Longrightarrow>
      mathRound (fmul (fdiv (of_nat c) (of_nat t)) 100) = mathRound (100 * of_nat c / of_nat t)"
    using percentage_round_half_up [OF _ ct t32] by simp
  show ?thesis using half s by blast
qed

lemma stats_seven_of_ten: "stats tenLogs None = (7, 10, 70)"
  by code_simp

text \<open>
  Claim C7 fails at an exact half. 23 completed of 40 are 57.5 percent, and the
  round-half-up of 57.5 is 58; the quotient \<open>23 / 40\<close> is rounded to a double before it
  is multiplied by 100, the product is the double \<open>57.49999999999999\<close>, and \<open>stats\<close>
  returns the percentage 57.
\<close>

theorem C7_half_rounds_down:
  "stats fortyLogs None = (23, 40, 57)
   \<and> mathRound (fmul (fdiv 23 40) 100) = 57
   \<and> fmul (fdiv 23 40) 100 < 115 / 2
   \<and> mathRound (100 * 23 / 40) = 58"
  by code_simp

end
